theory Spec2Isabelle
  imports Main "HOL-Library.Word"
begin

section \<open>The store (package store)\<close>

text \<open>
  The errors of the repository, as values.  \<open>ErrorNoSuchKey\<close> is the variable of that
  name in package store; the others stand for the \<open>fmt.Errorf\<close> messages of the
  file transaction logger: "input parse error", "transaction numbers out of sequence",
  "vaalue decoding failure", "transaction log read failure" and
  "cannot write to log file".
\<close>

datatype error =
    ErrorNoSuchKey
  | ErrInputParse
  | ErrOutOfSequence
  | ErrValueDecoding
  | ErrLogRead
  | ErrLogWrite

text \<open>
  \<open>type KVS struct { sync.RWMutex; M map[string]string }\<close>.  The lock orders
  concurrent callers and has no effect on a single caller, so only the map is kept.
  Every method takes the store and returns it next to its Go results; a Go \<open>nil\<close>
  error is \<open>None\<close>.
\<close>

record KVS =
  M :: "string \<rightharpoonup> string"

definition Get :: "KVS \<Rightarrow> string \<Rightarrow> (string \<times> error option) \<times> KVS" where
  "Get s key =
     (case M s key of
        None \<Rightarrow> (([], Some ErrorNoSuchKey), s)
      | Some v \<Rightarrow> ((v, None), s))"

definition Put :: "KVS \<Rightarrow> string \<Rightarrow> string \<Rightarrow> error option \<times> KVS" where
  "Put s key v = (None, s\<lparr>M := (M s)(key \<mapsto> v)\<rparr>)"

definition Delete :: "KVS \<Rightarrow> string \<Rightarrow> error option \<times> KVS" where
  "Delete s key = (None, s\<lparr>M := (M s)(key := None)\<rparr>)"

text \<open>\<open>store.KVS{M: make(map[string]string)}\<close>, the store the server starts with.\<close>

definition empty_KVS :: KVS where
  "empty_KVS = \<lparr>M = Map.empty\<rparr>"

text \<open>
  A caller's mutation of the store, and a sequence of them applied in order
  (the results of \<open>Put\<close> and \<open>Delete\<close> are always \<open>nil\<close> and are dropped).
\<close>

datatype mutation = PutOp string string | DeleteOp string

fun mutation_key :: "mutation \<Rightarrow> string" where
  "mutation_key (PutOp k v) = k"
| "mutation_key (DeleteOp k) = k"

fun mutate :: "KVS \<Rightarrow> mutation \<Rightarrow> KVS" where
  "mutate s (PutOp k v) = snd (Put s k v)"
| "mutate s (DeleteOp k) = snd (Delete s k)"

definition mutate_all :: "KVS \<Rightarrow> mutation list \<Rightarrow> KVS" where
  "mutate_all s ms = foldl mutate s ms"

text \<open>The last mutation of key \<open>k\<close> in a sequence, if there is one.\<close>

fun last_mutation :: "string \<Rightarrow> mutation list \<Rightarrow> mutation option" where
  "last_mutation k [] = None"
| "last_mutation k (m # ms) =
     (case last_mutation k ms of
        Some m' \<Rightarrow> Some m'
      | None \<Rightarrow> if mutation_key m = k then Some m else None)"

text \<open>What \<open>Get\<close> is to return after a sequence whose last mutation of the key is given.\<close>

fun expected_Get :: "mutation option \<Rightarrow> string \<times> error option" where
  "expected_Get (Some (PutOp k v)) = (v, None)"
| "expected_Get (Some (DeleteOp k)) = ([], Some ErrorNoSuchKey)"
| "expected_Get None = ([], Some ErrorNoSuchKey)"

section \<open>The file transaction logger (package logger)\<close>

text \<open>
  The repository holds two iterations of the logger.  The definitions of this section
  follow the later one (\<^verbatim>\<open>src/unnamed/part_000\<close>, whose \<open>FileTransactionLogger\<close>
  has the wait group, \<open>Wait\<close> and \<open>Close\<close>, and whose Postgres logger is written
  out); the earlier one (\<^verbatim>\<open>src/unnamed/part_001\<close>) differs in \<open>Run\<close> and
  \<open>ReadEvents\<close> and follows with the suffix \<open>_001\<close>.

  Go strings are byte strings: a \<open>char\<close> is a byte.
\<close>

record Event =
  Sequence :: "64 word"
  EventType :: "8 word"
  Key :: string
  Value :: string

definition EventDelete :: "8 word" where
  "EventDelete = 1"

definition EventPut :: "8 word" where
  "EventPut = 2"

text \<open>\<open>var e Event\<close>: the zero value.\<close>

definition zero_Event :: Event where
  "zero_Event = \<lparr>Sequence = 0, EventType = 0, Key = [], Value = []\<rparr>"

text \<open>
  \<open>events\<close> is the content of the buffered channel of write intents, in the order
  they were sent (\<open>make(chan Event, 16)\<close>: a sender waits while sixteen are queued,
  and its intent enters the queue when the worker has made room).  \<open>errors\<close> is the
  content of the error channel, \<open>make(chan error, 1)\<close>: it holds one error, and a
  sender waits while it is full.  \<open>Err\<close> hands out the channel, but no function of
  the repository receives from it.  \<open>file\<close> is the content of the log file.
\<close>

record FileTransactionLogger =
  events :: "Event list"
  errors :: "error list"
  lastSequence :: "64 word"
  "file" :: string

text \<open>\<open>MakeFileTransactionLogger\<close> on a file with the given content (created empty if absent).\<close>

definition MakeFileTransactionLogger :: "string \<Rightarrow> FileTransactionLogger" where
  "MakeFileTransactionLogger content =
     \<lparr>events = [], errors = [], lastSequence = 0, file = content\<rparr>"

definition WritePut :: "FileTransactionLogger \<Rightarrow> string \<Rightarrow> string \<Rightarrow> FileTransactionLogger" where
  "WritePut l key v =
     l\<lparr>events := events l @ [\<lparr>Sequence = 0, EventType = EventPut, Key = key, Value = v\<rparr>]\<rparr>"

definition WriteDelete :: "FileTransactionLogger \<Rightarrow> string \<Rightarrow> FileTransactionLogger" where
  "WriteDelete l key =
     l\<lparr>events := events l @ [\<lparr>Sequence = 0, EventType = EventDelete, Key = key, Value = []\<rparr>]\<rparr>"

subsection \<open>Writing: \<open>Run\<close>\<close>

definition TAB :: char where
  "TAB = CHR 0x09"

definition NL :: char where
  "NL = CHR 0x0A"

definition CR :: char where
  "CR = CHR 0x0D"

text \<open>The verb \<open>%d\<close> of \<open>fmt.Fprintf\<close> on an unsigned integer.\<close>

fun decimal :: "nat \<Rightarrow> string" where
  "decimal n =
     (if n < 10 then [char_of (48 + n)]
      else decimal (n div 10) @ [char_of (48 + n mod 10)])"

declare decimal.simps [simp del]

text \<open>The text \<open>fmt.Fprintf(l.file, "%d\t%d\t%s\t%s\n", n, e.EventType, e.Key, e.Value)\<close> formats.\<close>

definition record_text :: "nat \<Rightarrow> Event \<Rightarrow> string" where
  "record_text n e =
     decimal n @ [TAB] @ decimal (unat (EventType e)) @ [TAB] @ Key e @ [TAB] @ Value e @ [NL]"

text \<open>
  What an append does to the file is decided outside the program: it writes the whole
  text and returns no error, or it fails after some of the bytes have been written.
\<close>

datatype outcome = Written | Failed nat

fun appended :: "outcome \<Rightarrow> string \<Rightarrow> string" where
  "appended Written s = s"
| "appended (Failed n) s = take n s"

fun failed :: "outcome \<Rightarrow> bool" where
  "failed Written = False"
| "failed (Failed n) = True"

text \<open>The capacity of the error channel.\<close>

definition errors_capacity :: nat where
  "errors_capacity = 1"

text \<open>
  The goroutine of \<open>Run\<close>, \<open>for e := range events\<close>, with one outcome for each append
  it gets to make.  With no event in the channel it waits.  After a failed append it
  sends the error: into the channel when there is room, and otherwise it waits at the
  send, with the events behind still in their channel; as nothing receives from the
  error channel, it waits there for good, which is where the run ends.  The wait group
  counts the events not yet handled, for \<open>Wait\<close> and \<open>Close\<close>; the worker does not
  depend on it.
\<close>

fun Run :: "FileTransactionLogger \<Rightarrow> outcome list \<Rightarrow> FileTransactionLogger" where
  "Run l [] = l"
| "Run l (oc # ocs) =
     (case events l of
        [] \<Rightarrow> l
      | e # es \<Rightarrow>
          let n = lastSequence l + 1;
              l1 = l\<lparr>events := es, lastSequence := n,
                     file := file l @ appended oc (record_text (unat n) e)\<rparr>
          in if failed oc then
               (if length (errors l1) < errors_capacity
                then Run (l1\<lparr>errors := errors l1 @ [ErrLogWrite]\<rparr>) ocs
                else l1)
             else Run l1 ocs)"

text \<open>
  The number of appends a run of the worker makes when \<open>w\<close> errors lie in the error
  channel: one for each outcome, up to and including the first failure that finds the
  channel full.
\<close>

fun appends_made :: "nat \<Rightarrow> outcome list \<Rightarrow> nat" where
  "appends_made w [] = 0"
| "appends_made w (oc # ocs) =
     (if failed oc then
        (if w < errors_capacity then Suc (appends_made (Suc w) ocs) else 1)
      else Suc (appends_made w ocs))"

subsection \<open>Reading: \<open>fmt.Sscanf\<close>, \<open>url.QueryUnescape\<close>, \<open>bufio.Scanner\<close>\<close>

text \<open>
  The library functions \<open>ReadEvents\<close> calls, as far as it uses them.

  The scanning functions of \<open>fmt\<close> read runes.  \<open>Sscanf\<close> reads its string through
  \<open>readRune\<close>, which yields what \<open>utf8.DecodeRune\<close> yields on the bytes not yet
  read: the rune and the number of bytes of its encoding, and for a byte that starts no
  valid encoding the rune \<open>U+FFFD\<close> and one byte.
\<close>

type_synonym rune = nat

definition RuneError :: rune where
  "RuneError = 0xFFFD"

fun DecodeRune :: "string \<Rightarrow> rune \<times> nat" where
  "DecodeRune [] = (RuneError, 0)"
| "DecodeRune (c # cs) =
     (let p0 = (of_char c :: nat) in
      if p0 < 0x80 then (p0, 1)
      else if p0 < 0xC2 \<or> 0xF4 < p0 then (RuneError, 1)
      else
        let sz = (if p0 < 0xE0 then 2 else if p0 < 0xF0 then 3 else 4 :: nat);
            lo = (if p0 = 0xE0 then 0xA0 else if p0 = 0xF0 then 0x90 else 0x80 :: nat);
            hi = (if p0 = 0xED then 0x9F else if p0 = 0xF4 then 0x8F else 0xBF :: nat)
        in
        if Suc (length cs) < sz then (RuneError, 1)
        else
          let b1 = (of_char (cs ! 0) :: nat) in
          if b1 < lo \<or> hi < b1 then (RuneError, 1)
          else if sz = 2 then ((p0 mod 0x20) * 0x40 + b1 mod 0x40, 2)
          else
            let b2 = (of_char (cs ! 1) :: nat) in
            if b2 < 0x80 \<or> 0xBF < b2 then (RuneError, 1)
            else if sz = 3
            then ((p0 mod 0x10) * 0x1000 + (b1 mod 0x40) * 0x40 + b2 mod 0x40, 3)
            else
              let b3 = (of_char (cs ! 2) :: nat) in
              if b3 < 0x80 \<or> 0xBF < b3 then (RuneError, 1)
              else ((p0 mod 8) * 0x40000 + (b1 mod 0x40) * 0x1000
                      + (b2 mod 0x40) * 0x40 + b3 mod 0x40, 4))"

text \<open>The runes \<open>ReadRune\<close> yields one after the other, up to the end of the string.\<close>

fun runes :: "string \<Rightarrow> rune list" where
  "runes [] = []"
| "runes (c # cs) =
     fst (DecodeRune (c # cs)) # runes (drop (snd (DecodeRune (c # cs)) - 1) cs)"

text \<open>\<open>utf8.AppendRune\<close>, by which the scanner writes a rune into the word it collects.\<close>

definition EncodeRune :: "rune \<Rightarrow> string" where
  "EncodeRune r =
     (if r \<le> 0x7F then [char_of r]
      else if r \<le> 0x7FF then [char_of (0xC0 + r div 0x40), char_of (0x80 + r mod 0x40)]
      else
        let r3 = (if 0x10FFFF < r \<or> (0xD800 \<le> r \<and> r \<le> 0xDFFF) then RuneError else r)
        in if r3 \<le> 0xFFFF
           then [char_of (0xE0 + r3 div 0x1000), char_of (0x80 + (r3 div 0x40) mod 0x40),
                 char_of (0x80 + r3 mod 0x40)]
           else [char_of (0xF0 + r3 div 0x40000), char_of (0x80 + (r3 div 0x1000) mod 0x40),
                 char_of (0x80 + (r3 div 0x40) mod 0x40), char_of (0x80 + r3 mod 0x40)])"

text \<open>The white space of \<open>fmt\<close> (its table \<open>space\<close>).\<close>

definition isSpace :: "rune \<Rightarrow> bool" where
  "isSpace r =
     ((0x09 \<le> r \<and> r \<le> 0x0D) \<or> r = 0x20 \<or> r = 0x85 \<or> r = 0xA0 \<or> r = 0x1680
      \<or> (0x2000 \<le> r \<and> r \<le> 0x200A) \<or> (0x2028 \<le> r \<and> r \<le> 0x2029) \<or> r = 0x202F
      \<or> r = 0x205F \<or> r = 0x3000)"

text \<open>\<open>ss.SkipSpace\<close> under \<open>Sscanf\<close>: spaces are skipped, a newline is an error.\<close>

fun SkipSpace :: "rune list \<Rightarrow> rune list option" where
  "SkipSpace [] = Some []"
| "SkipSpace (r # rs) =
     (if r = 0x0A then None else if isSpace r then SkipSpace rs else Some (r # rs))"

text \<open>
  \<open>ss.advance\<close> on the space \<open>\t\<close> of the format: the input is at its end, or it
  has a space that is no newline, and the spaces after it are consumed too.
\<close>

fun skip_blanks :: "rune list \<Rightarrow> rune list" where
  "skip_blanks [] = []"
| "skip_blanks (r # rs) = (if isSpace r \<and> r \<noteq> 0x0A then skip_blanks rs else r # rs)"

fun advance :: "rune list \<Rightarrow> rune list option" where
  "advance [] = Some []"
| "advance (r # rs) =
     (if \<not> isSpace r then None else if r = 0x0A then None else Some (skip_blanks rs))"

text \<open>
  \<open>ss.scanUint\<close> for the verb \<open>%d\<close>: \<open>scanNumber\<close> takes the runes of
  \<open>"0123456789"\<close>, of which there has to be one; \<open>strconv.ParseUint(tok, 10, 64)\<close>
  refuses a value of 64 bits or more, and the value has to fit the operand's size.
\<close>

definition isDecimal :: "rune \<Rightarrow> bool" where
  "isDecimal r = (48 \<le> r \<and> r \<le> 57)"

fun ParseUint :: "nat \<Rightarrow> rune list \<Rightarrow> nat option" where
  "ParseUint acc [] = (if acc < 2 ^ 64 then Some acc else None)"
| "ParseUint acc (r # rs) =
     (if isDecimal r then ParseUint (10 * acc + (r - 48)) rs else None)"

definition scanUint :: "nat \<Rightarrow> rune list \<Rightarrow> (nat \<times> rune list) option" where
  "scanUint bitSize rs =
     (case SkipSpace rs of
        None \<Rightarrow> None
      | Some rs1 \<Rightarrow>
          if takeWhile isDecimal rs1 = [] then None
          else (case ParseUint 0 (takeWhile isDecimal rs1) of
                  None \<Rightarrow> None
                | Some i \<Rightarrow> if i < 2 ^ bitSize then Some (i, dropWhile isDecimal rs1) else None))"

text \<open>
  \<open>ss.convertString\<close> for the verb \<open>%s\<close>: the next word, which has to exist, as the
  bytes \<open>AppendRune\<close> writes for its runes.
\<close>

definition convertString :: "rune list \<Rightarrow> (string \<times> rune list) option" where
  "convertString rs =
     (case SkipSpace rs of
        None \<Rightarrow> None
      | Some rs1 \<Rightarrow>
          if rs1 = [] then None
          else Some (concat (map EncodeRune (takeWhile (\<lambda>r. \<not> isSpace r) rs1)),
                     dropWhile (\<lambda>r. \<not> isSpace r) rs1))"

text \<open>
  \<open>fmt.Sscanf(line, "%d\t%d\t%s\t%s", &e.Sequence, &e.EventType, &e.Key, &e.Value)\<close>.
  The operands are assigned one after the other; at the first error the scan stops and
  the operands not yet reached keep what they held.  The result is the event and
  whether \<open>Sscanf\<close> returned an error.  Input left after the last verb is no error.
\<close>

definition Sscanf :: "string \<Rightarrow> Event \<Rightarrow> Event \<times> bool" where
  "Sscanf line e =
     (case scanUint 64 (runes line) of
        None \<Rightarrow> (e, True)
      | Some (n1, r1) \<Rightarrow>
     let e1 = e\<lparr>Sequence := of_nat n1\<rparr> in
     (case advance r1 of
        None \<Rightarrow> (e1, True)
      | Some r2 \<Rightarrow>
     (case scanUint 8 r2 of
        None \<Rightarrow> (e1, True)
      | Some (n2, r3) \<Rightarrow>
     let e2 = e1\<lparr>EventType := of_nat n2\<rparr> in
     (case advance r3 of
        None \<Rightarrow> (e2, True)
      | Some r4 \<Rightarrow>
     (case convertString r4 of
        None \<Rightarrow> (e2, True)
      | Some (k, r5) \<Rightarrow>
     let e3 = e2\<lparr>Key := k\<rparr> in
     (case advance r5 of
        None \<Rightarrow> (e3, True)
      | Some r6 \<Rightarrow>
     (case convertString r6 of
        None \<Rightarrow> (e3, True)
      | Some (v, r7) \<Rightarrow> (e3\<lparr>Value := v\<rparr>, False))))))))"

text \<open>
  \<open>url.QueryUnescape\<close>: \<open>%XX\<close> is the byte with that hexadecimal code, \<open>+\<close> is a
  space; a \<open>%\<close> that two hexadecimal digits do not follow is an error.
\<close>

definition ishex :: "char \<Rightarrow> bool" where
  "ishex c =
     (let n = (of_char c :: nat)
      in (48 \<le> n \<and> n \<le> 57) \<or> (97 \<le> n \<and> n \<le> 102) \<or> (65 \<le> n \<and> n \<le> 70))"

definition unhex :: "char \<Rightarrow> nat" where
  "unhex c =
     (let n = (of_char c :: nat)
      in if 48 \<le> n \<and> n \<le> 57 then n - 48
         else if 97 \<le> n \<and> n \<le> 102 then n - 97 + 10
         else if 65 \<le> n \<and> n \<le> 70 then n - 65 + 10
         else 0)"

fun QueryUnescape :: "string \<Rightarrow> string option" where
  "QueryUnescape [] = Some []"
| "QueryUnescape (c # cs) =
     (if c = CHR ''%'' then
        (case cs of
           h1 # h2 # rest \<Rightarrow>
             if ishex h1 \<and> ishex h2
             then map_option ((#) (char_of (unhex h1 * 16 + unhex h2))) (QueryUnescape rest)
             else None
         | _ \<Rightarrow> None)
      else if c = CHR ''+'' then map_option ((#) (CHR 0x20)) (QueryUnescape cs)
      else map_option ((#) c) (QueryUnescape cs))"

text \<open>
  \<open>bufio.Scanner\<close> with \<open>ScanLines\<close>: the text between newlines, a last line without
  newline included when it is not empty; \<open>dropCR\<close> takes one carriage return off the
  end of a line.  A line of \<open>MaxScanTokenSize\<close> bytes or more does not fit the buffer:
  \<open>Scan\<close> returns false there and \<open>Err\<close> reports it.
\<close>

fun ScanLines :: "string \<Rightarrow> string list" where
  "ScanLines [] = []"
| "ScanLines (c # cs) =
     (if c = NL then [] # ScanLines cs
      else (case ScanLines cs of
              [] \<Rightarrow> [[c]]
            | line # lines \<Rightarrow> (c # line) # lines))"

definition dropCR :: "string \<Rightarrow> string" where
  "dropCR line = (if line \<noteq> [] \<and> last line = CR then butlast line else line)"

definition MaxScanTokenSize :: nat where
  "MaxScanTokenSize = 64 * 1024"

subsection \<open>Reading: \<open>ReadEvents\<close>\<close>

text \<open>
  The goroutine of \<open>ReadEvents\<close> over the lines of the file: the events sent on
  \<open>outEvent\<close>, the error sent on \<open>outError\<close> if any, and \<open>lastSequence\<close> at the
  end.  The event \<open>e\<close> is declared outside the loop, so a line starts from the event
  the line before left.  The result of \<open>Sscanf\<close> is not looked at.
\<close>

fun ReadEvents_loop ::
  "64 word \<Rightarrow> Event \<Rightarrow> string list \<Rightarrow> Event list \<times> error option \<times> 64 word" where
  "ReadEvents_loop ls e [] = ([], None, ls)"
| "ReadEvents_loop ls e (raw # rest) =
     (if MaxScanTokenSize \<le> length raw then ([], Some ErrLogRead, ls)
      else
        let e1 = fst (Sscanf (dropCR raw) e) in
        if Sequence e1 \<le> ls then ([], Some ErrOutOfSequence, ls)
        else
          (case QueryUnescape (Value e1) of
             None \<Rightarrow> ([], Some ErrValueDecoding, ls)
           | Some uv \<Rightarrow>
               let e2 = e1\<lparr>Value := uv\<rparr>;
                   (evs, err, ls') = ReadEvents_loop (Sequence e2) e2 rest
               in (e2 # evs, err, ls')))"

definition ReadEvents ::
  "FileTransactionLogger \<Rightarrow> (Event list \<times> error option) \<times> FileTransactionLogger" where
  "ReadEvents l =
     (let (evs, err, ls) = ReadEvents_loop (lastSequence l) zero_Event (ScanLines (file l))
      in ((evs, err), l\<lparr>lastSequence := ls\<rparr>))"

subsection \<open>The earlier iteration\<close>

text \<open>
  The worker returns after it has sent the error of a failed append (and does not get
  to return where the channel has no room for the error).
\<close>

fun Run_001 :: "FileTransactionLogger \<Rightarrow> outcome list \<Rightarrow> FileTransactionLogger" where
  "Run_001 l [] = l"
| "Run_001 l (oc # ocs) =
     (case events l of
        [] \<Rightarrow> l
      | e # es \<Rightarrow>
          let n = lastSequence l + 1;
              l1 = l\<lparr>events := es, lastSequence := n,
                     file := file l @ appended oc (record_text (unat n) e)\<rparr>
          in if failed oc then
               (if length (errors l1) < errors_capacity
                then l1\<lparr>errors := errors l1 @ [ErrLogWrite]\<rparr>
                else l1)
             else Run_001 l1 ocs)"

text \<open>An error of \<open>Sscanf\<close> ends the replay; the value is taken as it is read.\<close>

fun ReadEvents_001_loop ::
  "64 word \<Rightarrow> Event \<Rightarrow> string list \<Rightarrow> Event list \<times> error option \<times> 64 word" where
  "ReadEvents_001_loop ls e [] = ([], None, ls)"
| "ReadEvents_001_loop ls e (raw # rest) =
     (if MaxScanTokenSize \<le> length raw then ([], Some ErrLogRead, ls)
      else
        (case Sscanf (dropCR raw) e of
           (e1, True) \<Rightarrow> ([], Some ErrInputParse, ls)
         | (e1, False) \<Rightarrow>
             if Sequence e1 \<le> ls then ([], Some ErrOutOfSequence, ls)
             else
               let (evs, err, ls') = ReadEvents_001_loop (Sequence e1) e1 rest
               in (e1 # evs, err, ls')))"

definition ReadEvents_001 ::
  "FileTransactionLogger \<Rightarrow> (Event list \<times> error option) \<times> FileTransactionLogger" where
  "ReadEvents_001 l =
     (let (evs, err, ls) = ReadEvents_001_loop (lastSequence l) zero_Event (ScanLines (file l))
      in ((evs, err), l\<lparr>lastSequence := ls\<rparr>))"

subsection \<open>Well-formed records\<close>

text \<open>
  What a line holds when read on its own: the event \<open>Sscanf\<close> scans from it into
  the zero event, and that event with its value unescaped.
\<close>

definition parsed :: "string \<Rightarrow> Event" where
  "parsed raw = fst (Sscanf (dropCR raw) zero_Event)"

definition decoded :: "string \<Rightarrow> Event" where
  "decoded raw =
     (case QueryUnescape (Value (parsed raw)) of
        None \<Rightarrow> parsed raw
      | Some uv \<Rightarrow> (parsed raw)\<lparr>Value := uv\<rparr>)"

text \<open>
  The value \<open>ReadEvents\<close> unescapes at a record is the one \<open>Sscanf\<close> scans from it
  or, where the scan does not get to the fourth operand, the unescaped value the record
  before left (the empty string before the first record).  \<open>values_unescape v lines\<close>:
  with \<open>v\<close> the value left before them, the value unescapes at each of the lines.
\<close>

fun values_unescape :: "string \<Rightarrow> string list \<Rightarrow> bool" where
  "values_unescape v [] = True"
| "values_unescape v (raw # rest) =
     (case QueryUnescape (Value (fst (Sscanf (dropCR raw) (zero_Event\<lparr>Value := v\<rparr>)))) of
        None \<Rightarrow> False
      | Some uv \<Rightarrow> values_unescape uv rest)"

section \<open>The server (package main)\<close>

text \<open>
  The loop of \<open>initTransactionLogger\<close> applies the events in the order they arrive and
  stops at an error; an event that is neither a delete nor a put changes nothing.
  It returns the error of the replay, the store and the logger, whose \<open>Run\<close> it
  has started (the worker does its work later, see \<open>Run\<close>).  Every event sent is
  received, since \<open>outEvent\<close> has no buffer.  Where \<open>ReadEvents\<close> ends with an
  error, the error is in \<open>outError\<close> and \<open>outEvent\<close> is closed: the \<open>select\<close>
  either receives the error or sees the closed channel first and leaves the loop with
  no error.  Which it is lies with the scheduler and is the argument \<open>seen\<close>.
\<close>

definition replay_event :: "KVS \<Rightarrow> Event \<Rightarrow> error option \<times> KVS" where
  "replay_event s e =
     (if EventType e = EventDelete then Delete s (Key e)
      else if EventType e = EventPut then Put s (Key e) (Value e)
      else (None, s))"

fun replay_events :: "KVS \<Rightarrow> Event list \<Rightarrow> error option \<times> KVS" where
  "replay_events s [] = (None, s)"
| "replay_events s (e # es) =
     (case replay_event s e of
        (Some err, s') \<Rightarrow> (Some err, s')
      | (None, s') \<Rightarrow> replay_events s' es)"

definition initTransactionLogger ::
  "bool \<Rightarrow> KVS \<Rightarrow> FileTransactionLogger \<Rightarrow> error option \<times> KVS \<times> FileTransactionLogger" where
  "initTransactionLogger seen s l =
     (let ((evs, rerr), l') = ReadEvents l;
          (err, s') = replay_events s evs
      in (case err of
            Some x \<Rightarrow> (Some x, s', l')
          | None \<Rightarrow> (if seen then rerr else None, s', l')))"

text \<open>
  The write intent that follows a mutation of the store: \<open>WritePut\<close> after a
  \<open>Put\<close>, \<open>WriteDelete\<close> after a \<open>Delete\<close>.
\<close>

fun write_intent :: "FileTransactionLogger \<Rightarrow> mutation \<Rightarrow> FileTransactionLogger" where
  "write_intent l (PutOp k v) = WritePut l k v"
| "write_intent l (DeleteOp k) = WriteDelete l k"

text \<open>
  A round trip: on a fresh, empty log the write intents of a sequence of mutations are
  queued, the worker appends every event without failure, and a new start replays
  the file into an empty store.  The result is the error and the store of that replay.
\<close>

definition round_trip :: "mutation list \<Rightarrow> error option \<times> KVS" where
  "round_trip ms =
     (let l1 = foldl write_intent (MakeFileTransactionLogger []) ms;
          l2 = Run l1 (replicate (length ms) Written);
          (err, s, l) = initTransactionLogger True empty_KVS (MakeFileTransactionLogger (file l2))
      in (err, s))"

section \<open>Example logs\<close>

text \<open>A put of \<open>x = 42\<close> followed by a delete of \<open>x\<close>, as \<open>Run\<close> writes them.\<close>

definition put_delete_log :: string where
  "put_delete_log =
     ''1'' @ [TAB] @ ''2'' @ [TAB] @ ''x'' @ [TAB] @ ''42'' @ [NL]
   @ ''2'' @ [TAB] @ ''1'' @ [TAB] @ ''x'' @ [TAB] @ [NL]"

text \<open>Two puts with the sequence numbers 1 and 3.\<close>

definition gap_log :: string where
  "gap_log =
     ''1'' @ [TAB] @ ''2'' @ [TAB] @ ''x'' @ [TAB] @ ''42'' @ [NL]
   @ ''3'' @ [TAB] @ ''2'' @ [TAB] @ ''y'' @ [TAB] @ ''7'' @ [NL]"

text \<open>A put and a delete with the sequence numbers 1 and 3.\<close>

definition gap_delete_log :: string where
  "gap_delete_log =
     ''1'' @ [TAB] @ ''2'' @ [TAB] @ ''x'' @ [TAB] @ ''42'' @ [NL]
   @ ''3'' @ [TAB] @ ''1'' @ [TAB] @ ''x'' @ [TAB] @ [NL]"

text \<open>Two puts with the sequence numbers 1 and 3, the first of the value \<open>100%\<close>.\<close>

definition percent_log :: string where
  "percent_log =
     ''1'' @ [TAB] @ ''2'' @ [TAB] @ ''k'' @ [TAB] @ ''100%'' @ [NL]
   @ ''3'' @ [TAB] @ ''2'' @ [TAB] @ ''j'' @ [TAB] @ ''w'' @ [NL]"

text \<open>Three puts with the sequence numbers 1, 1 and 2.\<close>

definition unordered_log :: string where
  "unordered_log =
     ''1'' @ [TAB] @ ''2'' @ [TAB] @ ''x'' @ [TAB] @ ''42'' @ [NL]
   @ ''1'' @ [TAB] @ ''2'' @ [TAB] @ ''y'' @ [TAB] @ ''7'' @ [NL]
   @ ''2'' @ [TAB] @ ''2'' @ [TAB] @ ''z'' @ [TAB] @ ''8'' @ [NL]"

text \<open>A put, then a record whose second field is no number and whose other fields are missing.\<close>

definition malformed_log :: string where
  "malformed_log =
     ''1'' @ [TAB] @ ''2'' @ [TAB] @ ''x'' @ [TAB] @ ''42'' @ [NL]
   @ ''2'' @ [TAB] @ ''garbage'' @ [NL]"

text \<open>A put of the value \<open>a b\<close> at the key \<open>k\<close>, as \<open>Run\<close> writes it.\<close>

definition space_value_log :: string where
  "space_value_log = ''1'' @ [TAB] @ ''2'' @ [TAB] @ ''k'' @ [TAB] @ ''a b'' @ [NL]"

section \<open>Properties of the store\<close>

lemma Get_mutate_all:
  "fst (Get (mutate_all s ms) k) =
     (case last_mutation k ms of
        None \<Rightarrow> fst (Get s k)
      | Some m \<Rightarrow> expected_Get (Some m))"
proof (induction ms arbitrary: s)
  case Nil
  show ?case by (simp add: mutate_all_def)
next
  case (Cons m ms)
  have step: "mutate_all s (m # ms) = mutate_all (mutate s m) ms"
    by (simp add: mutate_all_def)
  show ?case
  proof (cases "last_mutation k ms")
    case (Some m')
    then show ?thesis using Cons.IH [of "mutate s m"] by (simp add: step)
  next
    case None
    have "fst (Get (mutate s m) k) =
            (if mutation_key m = k then expected_Get (Some m) else fst (Get s k))"
      by (cases m) (simp_all add: Get_def Put_def Delete_def split: option.split)
    then show ?thesis using None Cons.IH [of "mutate s m"] by (simp add: step)
  qed
qed

text \<open>
  C6.  For every sequence of put and delete operations applied to an initially empty
  store, \<open>Get k\<close> returns the value of the most recent \<open>Put\<close> of \<open>k\<close> (and no
  error) when the last mutation of \<open>k\<close> was a \<open>Put\<close>, and returns
  \<open>ErrorNoSuchKey\<close> when the last mutation of \<open>k\<close> was a \<open>Delete\<close> or \<open>k\<close>
  was never put.
\<close>

theorem C6_get_returns_last_write:
  "fst (Get (mutate_all empty_KVS ms) k) = expected_Get (last_mutation k ms)"
proof (cases "last_mutation k ms")
  case None
  then show ?thesis
    using Get_mutate_all [of empty_KVS ms k] by (simp add: Get_def empty_KVS_def)
next
  case (Some m)
  then show ?thesis
    using Get_mutate_all [of empty_KVS ms k] by simp
qed

text \<open>
  C10.  For every store and every pair of distinct keys \<open>k\<close> and \<open>k'\<close>:
  \<open>Put k v\<close> and \<open>Delete k\<close> leave the value mapped at \<open>k'\<close> unchanged, and
  \<open>Get k\<close> leaves the entire mapping unchanged.
\<close>

theorem C10_frame:
  assumes "k \<noteq> k'"
  shows "M (snd (Put s k v)) k' = M s k'
       \<and> M (snd (Delete s k)) k' = M s k'
       \<and> snd (Get s k) = s"
  using assms by (simp add: Put_def Delete_def Get_def split: option.split)

theorem C10_frame_witness:
  "''a'' \<noteq> ''b''
   \<and> M (snd (Put \<lparr>M = [''b'' \<mapsto> ''1'']\<rparr> ''a'' ''2'')) ''b'' = Some ''1''
   \<and> M (snd (Delete \<lparr>M = [''b'' \<mapsto> ''1'']\<rparr> ''a'')) ''b'' = Some ''1''
   \<and> snd (Get \<lparr>M = [''b'' \<mapsto> ''1'']\<rparr> ''a'') = \<lparr>M = [''b'' \<mapsto> ''1'']\<rparr>"
proof -
  have ne: "''a'' \<noteq> ''b''" by simp
  show ?thesis
    using ne C10_frame [OF ne, of "\<lparr>M = [''b'' \<mapsto> ''1'']\<rparr>" "''2''"] by simp
qed

section \<open>Properties of the logger\<close>

subsection \<open>Evaluation\<close>

lemmas scan_defs = Sscanf_def scanUint_def convertString_def isDecimal_def isSpace_def
  EncodeRune_def char_of_def bit_0 NL_def TAB_def CR_def zero_Event_def dropCR_def
  MaxScanTokenSize_def Let_def

lemmas print_defs = record_text_def decimal.simps char_of_def bit_0 TAB_def NL_def

subsection \<open>Scanning a line\<close>

text \<open>
  A scan that returns no error has assigned all four operands, so its result does not
  depend on the event it started from; whether it returns an error never does.
\<close>

lemma Sscanf_complete:
  assumes "\<not> snd (Sscanf s e0)"
  shows "Sscanf s e = Sscanf s e0"
  using assms
  by (auto simp: Sscanf_def Let_def split: option.splits prod.splits)

lemma Sscanf_failed_any: "snd (Sscanf s e) = snd (Sscanf s e0)"
  by (auto simp: Sscanf_def Let_def split: option.splits prod.splits)

subsection \<open>Replay of a log in two parts\<close>

lemma ReadEvents_loop_append:
  assumes "ReadEvents_loop ls e pre = (evs, None, ls')"
  shows "ReadEvents_loop ls e (pre @ rest) =
           (case ReadEvents_loop ls' (if evs = [] then e else last evs) rest of
              (evs2, err, ls2) \<Rightarrow> (evs @ evs2, err, ls2))"
  using assms
proof (induction pre arbitrary: ls e evs)
  case Nil
  then show ?case by (simp split: prod.splits)
next
  case (Cons raw pre)
  then show ?case
    by (auto simp: Let_def split: if_splits option.splits prod.splits)
qed

lemma ReadEvents_001_loop_append:
  assumes "ReadEvents_001_loop ls e pre = (evs, None, ls')"
  shows "ReadEvents_001_loop ls e (pre @ rest) =
           (case ReadEvents_001_loop ls' (if evs = [] then e else last evs) rest of
              (evs2, err, ls2) \<Rightarrow> (evs @ evs2, err, ls2))"
  using assms
proof (induction pre arbitrary: ls e evs)
  case Nil
  then show ?case by (simp split: prod.splits)
next
  case (Cons raw pre)
  then show ?case
    by (auto simp: Let_def split: if_splits option.splits prod.splits bool.splits)
qed

subsection \<open>Replay of a log with increasing sequence numbers\<close>

lemma ReadEvents_loop_increasing:
  assumes "\<forall>raw \<in> set lines. length raw < MaxScanTokenSize
             \<and> \<not> snd (Sscanf (dropCR raw) zero_Event)
             \<and> QueryUnescape (Value (parsed raw)) \<noteq> None"
    and "sorted_wrt (<) (ls # map (\<lambda>raw. Sequence (parsed raw)) lines)"
  shows "ReadEvents_loop ls e lines =
           (map decoded lines, None, last (ls # map (\<lambda>raw. Sequence (parsed raw)) lines))"
  using assms
proof (induction lines arbitrary: ls e)
  case Nil
  show ?case by simp
next
  case (Cons raw rest)
  have ok: "\<not> snd (Sscanf (dropCR raw) zero_Event)" and short: "length raw < MaxScanTokenSize"
    and dec: "QueryUnescape (Value (parsed raw)) \<noteq> None"
    using Cons.prems(1) by simp_all
  have scan: "fst (Sscanf (dropCR raw) e) = parsed raw"
    using Sscanf_complete [OF ok, of e] by (simp add: parsed_def)
  have above: "ls < Sequence (parsed raw)"
    using Cons.prems(2) by simp
  obtain uv where uv: "QueryUnescape (Value (parsed raw)) = Some uv"
    using dec by blast
  have d: "decoded raw = (parsed raw)\<lparr>Value := uv\<rparr>"
    by (simp add: decoded_def uv)
  have rest: "ReadEvents_loop (Sequence (parsed raw)) (decoded raw) rest =
                (map decoded rest, None,
                 last (Sequence (parsed raw) # map (\<lambda>raw. Sequence (parsed raw)) rest))"
    using Cons.prems by (intro Cons.IH) simp_all
  show ?case
    using short above rest by (simp add: scan uv d Let_def not_le [symmetric] del: not_le)
qed

lemma ReadEvents_001_loop_increasing:
  assumes "\<forall>raw \<in> set lines. length raw < MaxScanTokenSize
             \<and> \<not> snd (Sscanf (dropCR raw) zero_Event)"
    and "sorted_wrt (<) (ls # map (\<lambda>raw. Sequence (parsed raw)) lines)"
  shows "ReadEvents_001_loop ls e lines =
           (map parsed lines, None, last (ls # map (\<lambda>raw. Sequence (parsed raw)) lines))"
  using assms
proof (induction lines arbitrary: ls e)
  case Nil
  show ?case by simp
next
  case (Cons raw rest)
  have ok: "\<not> snd (Sscanf (dropCR raw) zero_Event)" and short: "length raw < MaxScanTokenSize"
    using Cons.prems(1) by simp_all
  have scan: "Sscanf (dropCR raw) e = (parsed raw, False)"
    using Sscanf_complete [OF ok, of e] ok by (simp add: parsed_def prod_eq_iff)
  have above: "ls < Sequence (parsed raw)"
    using Cons.prems(2) by simp
  have rest: "ReadEvents_001_loop (Sequence (parsed raw)) (parsed raw) rest =
                (map parsed rest, None,
                 last (Sequence (parsed raw) # map (\<lambda>raw. Sequence (parsed raw)) rest))"
    using Cons.prems by (intro Cons.IH) simp_all
  show ?case
    using short above rest by (simp add: scan Let_def not_le [symmetric] del: not_le)
qed

lemma ScanLines_gap_log:
  "ScanLines gap_log =
     [[CHR ''1'', TAB, CHR ''2'', TAB, CHR ''x'', TAB, CHR ''4'', CHR ''2''],
      [CHR ''3'', TAB, CHR ''2'', TAB, CHR ''y'', TAB, CHR ''7'']]"
  by (simp add: gap_log_def NL_def TAB_def)

lemma Sscanf_gap_log:
  "Sscanf (dropCR [CHR ''1'', TAB, CHR ''2'', TAB, CHR ''x'', TAB, CHR ''4'', CHR ''2'']) zero_Event =
     (\<lparr>Sequence = 1, EventType = 2, Key = ''x'', Value = ''42''\<rparr>, False)"
  "Sscanf (dropCR [CHR ''3'', TAB, CHR ''2'', TAB, CHR ''y'', TAB, CHR ''7'']) zero_Event =
     (\<lparr>Sequence = 3, EventType = 2, Key = ''y'', Value = ''7''\<rparr>, False)"
  by (simp_all add: scan_defs)

text \<open>
  Where the sequence numbers increase, the sequence number of a record is read whatever
  the event held before, and the value scanned depends on that event's value alone.
\<close>

lemma Sscanf_Sequence_parsed:
  assumes "Sequence (parsed raw) \<noteq> 0"
  shows "Sequence (fst (Sscanf (dropCR raw) e)) = Sequence (parsed raw)"
  using assms
  by (auto simp: parsed_def Sscanf_def Let_def zero_Event_def split: option.splits prod.splits)

lemma Sscanf_Value:
  "Value (fst (Sscanf s e)) = Value (fst (Sscanf s (zero_Event\<lparr>Value := Value e\<rparr>)))"
  by (auto simp: Sscanf_def Let_def zero_Event_def split: option.splits prod.splits)

lemma above_not_zero:
  fixes ls :: "64 word"
  assumes "ls < n"
  shows "n \<noteq> 0"
  using assms by (auto simp: word_less_nat_alt)

lemma ReadEvents_loop_gaps:
  assumes "sorted_wrt (<) (ls # map (\<lambda>raw. Sequence (parsed raw)) lines)"
  shows "fst (snd (ReadEvents_loop ls e lines)) \<noteq> Some ErrOutOfSequence"
  using assms
proof (induction lines arbitrary: ls e)
  case Nil
  show ?case by simp
next
  case (Cons raw rest)
  have above: "ls < Sequence (parsed raw)"
    using Cons.prems by simp
  have seq: "Sequence (fst (Sscanf (dropCR raw) e)) = Sequence (parsed raw)"
    using above_not_zero [OF above] by (rule Sscanf_Sequence_parsed)
  have rest: "fst (snd (ReadEvents_loop (Sequence (parsed raw)) e' rest)) \<noteq> Some ErrOutOfSequence"
    for e'
    using Cons.prems by (intro Cons.IH) simp
  have notle: "\<not> Sequence (parsed raw) \<le> ls"
    using above by simp
  show ?case
  proof (cases "QueryUnescape (Value (fst (Sscanf (dropCR raw) e)))")
    case None
    then show ?thesis
      using notle by (simp add: seq Let_def)
  next
    case (Some uv)
    then show ?thesis
      using notle rest [of "(fst (Sscanf (dropCR raw) e))\<lparr>Value := uv\<rparr>"]
      by (simp add: seq Let_def split_def)
  qed
qed

lemma ReadEvents_001_loop_gaps:
  assumes "sorted_wrt (<) (ls # map (\<lambda>raw. Sequence (parsed raw)) lines)"
  shows "fst (snd (ReadEvents_001_loop ls e lines)) \<noteq> Some ErrOutOfSequence"
  using assms
proof (induction lines arbitrary: ls e)
  case Nil
  show ?case by simp
next
  case (Cons raw rest)
  have above: "ls < Sequence (parsed raw)"
    using Cons.prems by simp
  have seq: "Sequence (fst (Sscanf (dropCR raw) e)) = Sequence (parsed raw)"
    using above_not_zero [OF above] by (rule Sscanf_Sequence_parsed)
  have rest: "fst (snd (ReadEvents_001_loop (Sequence (parsed raw)) e' rest)) \<noteq> Some ErrOutOfSequence"
    for e'
    using Cons.prems by (intro Cons.IH) simp
  have notle: "\<not> Sequence (parsed raw) \<le> ls"
    using above by simp
  show ?case
  proof (cases "Sscanf (dropCR raw) e")
    case (Pair e1 bad)
    then have "Sequence e1 = Sequence (parsed raw)"
      using seq by simp
    then show ?thesis
      using notle rest [of e1] Pair
      by (cases bad) (simp_all add: Let_def split_def)
  qed
qed

lemma ReadEvents_loop_values:
  assumes "\<forall>raw \<in> set lines. length raw < MaxScanTokenSize"
    and "sorted_wrt (<) (ls # map (\<lambda>raw. Sequence (parsed raw)) lines)"
    and "values_unescape (Value e) lines"
  shows "fst (snd (ReadEvents_loop ls e lines)) = None
       \<and> map Sequence (fst (ReadEvents_loop ls e lines)) = map (\<lambda>raw. Sequence (parsed raw)) lines
       \<and> snd (snd (ReadEvents_loop ls e lines)) = last (ls # map (\<lambda>raw. Sequence (parsed raw)) lines)"
  using assms
proof (induction lines arbitrary: ls e)
  case Nil
  show ?case by simp
next
  case (Cons raw rest)
  let ?e1 = "fst (Sscanf (dropCR raw) e)"
  have short: "length raw < MaxScanTokenSize"
    using Cons.prems(1) by simp
  have above: "ls < Sequence (parsed raw)"
    using Cons.prems(2) by simp
  have seq: "Sequence ?e1 = Sequence (parsed raw)"
    using above_not_zero [OF above] by (rule Sscanf_Sequence_parsed)
  obtain uv where uv: "QueryUnescape (Value ?e1) = Some uv" and vs: "values_unescape uv rest"
    using Cons.prems(3) Sscanf_Value [of "dropCR raw" e]
    by (auto split: option.splits)
  let ?e2 = "?e1\<lparr>Value := uv\<rparr>"
  have rest: "fst (snd (ReadEvents_loop (Sequence (parsed raw)) ?e2 rest)) = None
       \<and> map Sequence (fst (ReadEvents_loop (Sequence (parsed raw)) ?e2 rest))
           = map (\<lambda>raw. Sequence (parsed raw)) rest
       \<and> snd (snd (ReadEvents_loop (Sequence (parsed raw)) ?e2 rest))
           = last (Sequence (parsed raw) # map (\<lambda>raw. Sequence (parsed raw)) rest)"
    using Cons.prems(1,2) vs by (intro Cons.IH) simp_all
  have notle: "\<not> Sequence (parsed raw) \<le> ls"
    using above by simp
  show ?case
    using short notle rest
    by (simp add: seq uv Let_def split_def)
qed

lemma ReadEvents_loop_values_fail:
  assumes "\<forall>raw \<in> set lines. length raw < MaxScanTokenSize"
    and "sorted_wrt (<) (ls # map (\<lambda>raw. Sequence (parsed raw)) lines)"
    and "\<not> values_unescape (Value e) lines"
  shows "fst (snd (ReadEvents_loop ls e lines)) = Some ErrValueDecoding"
  using assms
proof (induction lines arbitrary: ls e)
  case Nil
  then show ?case by simp
next
  case (Cons raw rest)
  let ?e1 = "fst (Sscanf (dropCR raw) e)"
  have short: "length raw < MaxScanTokenSize"
    using Cons.prems(1) by simp
  have above: "ls < Sequence (parsed raw)"
    using Cons.prems(2) by simp
  have seq: "Sequence ?e1 = Sequence (parsed raw)"
    using above_not_zero [OF above] by (rule Sscanf_Sequence_parsed)
  have notle: "\<not> Sequence (parsed raw) \<le> ls"
    using above by simp
  show ?case
  proof (cases "QueryUnescape (Value ?e1)")
    case None
    then show ?thesis
      using short notle by (simp add: seq Let_def)
  next
    case (Some uv)
    have "\<not> values_unescape uv rest"
      using Cons.prems(3) Some Sscanf_Value [of "dropCR raw" e] by simp
    then have "fst (snd (ReadEvents_loop (Sequence (parsed raw)) (?e1\<lparr>Value := uv\<rparr>) rest))
                 = Some ErrValueDecoding"
      using Cons.prems(1,2) by (intro Cons.IH) simp_all
    then show ?thesis
      using short notle Some by (simp add: seq Let_def split_def)
  qed
qed

lemma ScanLines_gap_delete_log:
  "ScanLines gap_delete_log =
     [[CHR ''1'', TAB, CHR ''2'', TAB, CHR ''x'', TAB, CHR ''4'', CHR ''2''],
      [CHR ''3'', TAB, CHR ''1'', TAB, CHR ''x'', TAB]]"
  by (simp add: gap_delete_log_def NL_def TAB_def)

lemma Sscanf_gap_delete_log:
  "Sscanf (dropCR [CHR ''3'', TAB, CHR ''1'', TAB, CHR ''x'', TAB]) zero_Event =
     (\<lparr>Sequence = 3, EventType = 1, Key = ''x'', Value = []\<rparr>, True)"
  "Sscanf (dropCR [CHR ''3'', TAB, CHR ''1'', TAB, CHR ''x'', TAB])
      \<lparr>Sequence = 1, EventType = 2, Key = ''x'', Value = ''42''\<rparr> =
     (\<lparr>Sequence = 3, EventType = 1, Key = ''x'', Value = ''42''\<rparr>, True)"
  by (simp_all add: scan_defs)

lemma ScanLines_percent_log:
  "ScanLines percent_log =
     [[CHR ''1'', TAB, CHR ''2'', TAB, CHR ''k'', TAB, CHR ''1'', CHR ''0'', CHR ''0'', CHR ''%''],
      [CHR ''3'', TAB, CHR ''2'', TAB, CHR ''j'', TAB, CHR ''w'']]"
  by (simp add: percent_log_def NL_def TAB_def)

lemma Sscanf_percent_log:
  "Sscanf (dropCR [CHR ''1'', TAB, CHR ''2'', TAB, CHR ''k'', TAB, CHR ''1'', CHR ''0'', CHR ''0'', CHR ''%''])
      zero_Event =
     (\<lparr>Sequence = 1, EventType = 2, Key = ''k'', Value = ''100%''\<rparr>, False)"
  "Sscanf (dropCR [CHR ''3'', TAB, CHR ''2'', TAB, CHR ''j'', TAB, CHR ''w'']) zero_Event =
     (\<lparr>Sequence = 3, EventType = 2, Key = ''j'', Value = ''w''\<rparr>, False)"
  by (simp_all add: scan_defs)

text \<open>
  C9, as claimed: replay rejects a record only when its sequence number is less than or
  equal to the running \<open>lastSequence\<close>, so every log whose sequence numbers are
  strictly increasing but not contiguous is replayed in full with no error.  The
  records of \<open>percent_log\<close> carry the sequence numbers 1 and 3 and scan; the value
  \<open>100%\<close> of the first does not unescape, and \<open>ReadEvents\<close> ends with the decoding
  error before it has sent an event.  (The earlier iteration, which does not unescape,
  ends with the parse error at the delete of \<open>gap_delete_log\<close>.)
\<close>

theorem C9_value_counterexample:
  "map (\<lambda>raw. Sequence (parsed raw)) (ScanLines (file (MakeFileTransactionLogger percent_log)))
     = [1, 3]
   \<and> \<not> snd (Sscanf (dropCR (ScanLines percent_log ! 0)) zero_Event)
   \<and> \<not> snd (Sscanf (dropCR (ScanLines percent_log ! 1)) zero_Event)
   \<and> fst (ReadEvents (MakeFileTransactionLogger percent_log)) = ([], Some ErrValueDecoding)
   \<and> map (\<lambda>raw. Sequence (parsed raw)) (ScanLines (file (MakeFileTransactionLogger gap_delete_log)))
     = [1, 3]
   \<and> fst (ReadEvents_001 (MakeFileTransactionLogger gap_delete_log)) =
       ([\<lparr>Sequence = 1, EventType = 2, Key = ''x'', Value = ''42''\<rparr>], Some ErrInputParse)"
proof -
  have "map (\<lambda>raw. Sequence (parsed raw)) (ScanLines (file (MakeFileTransactionLogger percent_log)))
          = [1, 3]"
    by (simp add: MakeFileTransactionLogger_def ScanLines_percent_log parsed_def
        Sscanf_percent_log)
  moreover have "\<not> snd (Sscanf (dropCR (ScanLines percent_log ! 0)) zero_Event)"
    and "\<not> snd (Sscanf (dropCR (ScanLines percent_log ! 1)) zero_Event)"
    by (simp_all add: ScanLines_percent_log Sscanf_percent_log)
  moreover have "fst (ReadEvents (MakeFileTransactionLogger percent_log)) =
          ([], Some ErrValueDecoding)"
    by (simp add: ReadEvents_def MakeFileTransactionLogger_def ScanLines_percent_log
        Sscanf_percent_log MaxScanTokenSize_def Let_def word_le_nat_alt)
  moreover have "map (\<lambda>raw. Sequence (parsed raw))
          (ScanLines (file (MakeFileTransactionLogger gap_delete_log))) = [1, 3]"
    by (simp add: MakeFileTransactionLogger_def ScanLines_gap_delete_log parsed_def
        Sscanf_gap_log Sscanf_gap_delete_log)
  moreover have "fst (ReadEvents_001 (MakeFileTransactionLogger gap_delete_log)) =
          ([\<lparr>Sequence = 1, EventType = 2, Key = ''x'', Value = ''42''\<rparr>], Some ErrInputParse)"
    by (simp add: ReadEvents_001_def MakeFileTransactionLogger_def ScanLines_gap_delete_log
        Sscanf_gap_log Sscanf_gap_delete_log MaxScanTokenSize_def Let_def word_le_nat_alt)
  ultimately show ?thesis by simp
qed

text \<open>
  C9, as amended.  Replay rejects a record for its sequence number only when that
  number is less than or equal to the running \<open>lastSequence\<close>: in a log whose
  sequence numbers are strictly increasing, contiguous or not, no record is rejected
  as out of sequence, by either iteration of \<open>ReadEvents\<close>.  Where every line fits
  the scanner, \<open>ReadEvents\<close> replays all the records, under their sequence numbers
  and with no error, if the value unescapes at every record, and ends with the decoding
  error if not; the records need not scan in full.  Where they do and their own values
  unescape, the events are the records read one by one; the earlier iteration replays
  the records that scan in full as they are read.
\<close>

theorem C9_gaps_replay:
  assumes "sorted_wrt (<) (lastSequence l # map (\<lambda>raw. Sequence (parsed raw)) (ScanLines (file l)))"
  shows "snd (fst (ReadEvents l)) \<noteq> Some ErrOutOfSequence
       \<and> snd (fst (ReadEvents_001 l)) \<noteq> Some ErrOutOfSequence
       \<and> ((\<forall>raw \<in> set (ScanLines (file l)). length raw < MaxScanTokenSize)
            \<and> values_unescape [] (ScanLines (file l))
          \<longrightarrow> snd (fst (ReadEvents l)) = None
            \<and> map Sequence (fst (fst (ReadEvents l)))
                = map (\<lambda>raw. Sequence (parsed raw)) (ScanLines (file l))
            \<and> lastSequence (snd (ReadEvents l))
                = last (lastSequence l # map (\<lambda>raw. Sequence (parsed raw)) (ScanLines (file l))))
       \<and> ((\<forall>raw \<in> set (ScanLines (file l)). length raw < MaxScanTokenSize)
            \<and> \<not> values_unescape [] (ScanLines (file l))
          \<longrightarrow> snd (fst (ReadEvents l)) = Some ErrValueDecoding)
       \<and> ((\<forall>raw \<in> set (ScanLines (file l)). length raw < MaxScanTokenSize
               \<and> \<not> snd (Sscanf (dropCR raw) zero_Event)
               \<and> QueryUnescape (Value (parsed raw)) \<noteq> None)
          \<longrightarrow> fst (ReadEvents l) = (map decoded (ScanLines (file l)), None))
       \<and> ((\<forall>raw \<in> set (ScanLines (file l)). length raw < MaxScanTokenSize
               \<and> \<not> snd (Sscanf (dropCR raw) zero_Event))
          \<longrightarrow> fst (ReadEvents_001 l) = (map parsed (ScanLines (file l)), None))"
proof -
  let ?lines = "ScanLines (file l)"
  have p1: "snd (fst (ReadEvents l)) \<noteq> Some ErrOutOfSequence"
    using ReadEvents_loop_gaps [OF assms, of zero_Event]
    by (simp add: ReadEvents_def split_def Let_def)
  have p2: "snd (fst (ReadEvents_001 l)) \<noteq> Some ErrOutOfSequence"
    using ReadEvents_001_loop_gaps [OF assms, of zero_Event]
    by (simp add: ReadEvents_001_def split_def Let_def)
  have p3: "(\<forall>raw \<in> set ?lines. length raw < MaxScanTokenSize) \<and> values_unescape [] ?lines
          \<longrightarrow> snd (fst (ReadEvents l)) = None
            \<and> map Sequence (fst (fst (ReadEvents l))) = map (\<lambda>raw. Sequence (parsed raw)) ?lines
            \<and> lastSequence (snd (ReadEvents l))
                = last (lastSequence l # map (\<lambda>raw. Sequence (parsed raw)) ?lines)"
  proof
    assume a: "(\<forall>raw \<in> set ?lines. length raw < MaxScanTokenSize) \<and> values_unescape [] ?lines"
    have v: "values_unescape (Value zero_Event) ?lines"
      using a by (simp add: zero_Event_def)
    have short: "\<forall>raw \<in> set ?lines. length raw < MaxScanTokenSize"
      using a by simp
    show "snd (fst (ReadEvents l)) = None
            \<and> map Sequence (fst (fst (ReadEvents l))) = map (\<lambda>raw. Sequence (parsed raw)) ?lines
            \<and> lastSequence (snd (ReadEvents l))
                = last (lastSequence l # map (\<lambda>raw. Sequence (parsed raw)) ?lines)"
      using ReadEvents_loop_values [OF short assms v]
      by (simp add: ReadEvents_def split_def Let_def)
  qed
  have p3': "(\<forall>raw \<in> set ?lines. length raw < MaxScanTokenSize) \<and> \<not> values_unescape [] ?lines
          \<longrightarrow> snd (fst (ReadEvents l)) = Some ErrValueDecoding"
  proof
    assume a: "(\<forall>raw \<in> set ?lines. length raw < MaxScanTokenSize) \<and> \<not> values_unescape [] ?lines"
    have v: "\<not> values_unescape (Value zero_Event) ?lines"
      using a by (simp add: zero_Event_def)
    have short: "\<forall>raw \<in> set ?lines. length raw < MaxScanTokenSize"
      using a by simp
    show "snd (fst (ReadEvents l)) = Some ErrValueDecoding"
      using ReadEvents_loop_values_fail [OF short assms v]
      by (simp add: ReadEvents_def split_def Let_def)
  qed
  have p4: "(\<forall>raw \<in> set ?lines. length raw < MaxScanTokenSize
               \<and> \<not> snd (Sscanf (dropCR raw) zero_Event)
               \<and> QueryUnescape (Value (parsed raw)) \<noteq> None)
          \<longrightarrow> fst (ReadEvents l) = (map decoded ?lines, None)"
  proof
    assume a: "\<forall>raw \<in> set ?lines. length raw < MaxScanTokenSize
               \<and> \<not> snd (Sscanf (dropCR raw) zero_Event)
               \<and> QueryUnescape (Value (parsed raw)) \<noteq> None"
    have "ReadEvents_loop (lastSequence l) zero_Event ?lines =
            (map decoded ?lines, None,
             last (lastSequence l # map (\<lambda>raw. Sequence (parsed raw)) ?lines))"
      using a assms by (rule ReadEvents_loop_increasing)
    then show "fst (ReadEvents l) = (map decoded ?lines, None)"
      by (simp add: ReadEvents_def)
  qed
  have p5: "(\<forall>raw \<in> set ?lines. length raw < MaxScanTokenSize
               \<and> \<not> snd (Sscanf (dropCR raw) zero_Event))
          \<longrightarrow> fst (ReadEvents_001 l) = (map parsed ?lines, None)"
  proof
    assume a: "\<forall>raw \<in> set ?lines. length raw < MaxScanTokenSize
               \<and> \<not> snd (Sscanf (dropCR raw) zero_Event)"
    have "ReadEvents_001_loop (lastSequence l) zero_Event ?lines =
            (map parsed ?lines, None,
             last (lastSequence l # map (\<lambda>raw. Sequence (parsed raw)) ?lines))"
      using a assms by (rule ReadEvents_001_loop_increasing)
    then show "fst (ReadEvents_001 l) = (map parsed ?lines, None)"
      by (simp add: ReadEvents_001_def)
  qed
  show ?thesis
    by (intro conjI p1 p2 p3 p3' p4 p5)
qed

theorem C9_gaps_replay_witness:
  "sorted_wrt (<) (lastSequence (MakeFileTransactionLogger gap_log)
        # map (\<lambda>raw. Sequence (parsed raw)) (ScanLines (file (MakeFileTransactionLogger gap_log))))
   \<and> map (\<lambda>raw. Sequence (parsed raw)) (ScanLines (file (MakeFileTransactionLogger gap_log)))
        = [1, 3]
   \<and> ScanLines (file (MakeFileTransactionLogger gap_log)) =
       [[CHR ''1'', TAB, CHR ''2'', TAB, CHR ''x'', TAB, CHR ''4'', CHR ''2''],
        [CHR ''3'', TAB, CHR ''2'', TAB, CHR ''y'', TAB, CHR ''7'']]
   \<and> \<not> snd (Sscanf (dropCR [CHR ''1'', TAB, CHR ''2'', TAB, CHR ''x'', TAB, CHR ''4'', CHR ''2''])
             zero_Event)
   \<and> \<not> snd (Sscanf (dropCR [CHR ''3'', TAB, CHR ''2'', TAB, CHR ''y'', TAB, CHR ''7''])
             zero_Event)
   \<and> values_unescape [] (ScanLines (file (MakeFileTransactionLogger gap_log)))
   \<and> fst (ReadEvents (MakeFileTransactionLogger gap_log)) =
       ([\<lparr>Sequence = 1, EventType = 2, Key = ''x'', Value = ''42''\<rparr>,
         \<lparr>Sequence = 3, EventType = 2, Key = ''y'', Value = ''7''\<rparr>], None)
   \<and> lastSequence (snd (ReadEvents (MakeFileTransactionLogger gap_log))) = 3
   \<and> fst (ReadEvents_001 (MakeFileTransactionLogger gap_log)) =
       ([\<lparr>Sequence = 1, EventType = 2, Key = ''x'', Value = ''42''\<rparr>,
         \<lparr>Sequence = 3, EventType = 2, Key = ''y'', Value = ''7''\<rparr>], None)
   \<and> sorted_wrt (<) (lastSequence (MakeFileTransactionLogger gap_delete_log)
        # map (\<lambda>raw. Sequence (parsed raw))
            (ScanLines (file (MakeFileTransactionLogger gap_delete_log))))
   \<and> map (\<lambda>raw. Sequence (parsed raw)) (ScanLines (file (MakeFileTransactionLogger gap_delete_log)))
        = [1, 3]
   \<and> values_unescape [] (ScanLines (file (MakeFileTransactionLogger gap_delete_log)))
   \<and> snd (fst (ReadEvents (MakeFileTransactionLogger gap_delete_log))) = None
   \<and> map Sequence (fst (fst (ReadEvents (MakeFileTransactionLogger gap_delete_log)))) = [1, 3]
   \<and> lastSequence (snd (ReadEvents (MakeFileTransactionLogger gap_delete_log))) = 3
   \<and> sorted_wrt (<) (lastSequence (MakeFileTransactionLogger percent_log)
        # map (\<lambda>raw. Sequence (parsed raw))
            (ScanLines (file (MakeFileTransactionLogger percent_log))))
   \<and> \<not> values_unescape [] (ScanLines (file (MakeFileTransactionLogger percent_log)))
   \<and> snd (fst (ReadEvents (MakeFileTransactionLogger percent_log))) = Some ErrValueDecoding"
proof -
  let ?g = "MakeFileTransactionLogger gap_log"
  let ?d = "MakeFileTransactionLogger gap_delete_log"
  have g1: "sorted_wrt (<) (lastSequence ?g
        # map (\<lambda>raw. Sequence (parsed raw)) (ScanLines (file ?g)))"
    by (simp add: MakeFileTransactionLogger_def ScanLines_gap_log parsed_def Sscanf_gap_log)
  have g2: "\<forall>raw \<in> set (ScanLines (file ?g)). length raw < MaxScanTokenSize"
    by (simp add: MakeFileTransactionLogger_def ScanLines_gap_log MaxScanTokenSize_def)
  have g3: "values_unescape [] (ScanLines (file ?g))"
    by (simp add: MakeFileTransactionLogger_def ScanLines_gap_log scan_defs)
  have g4: "\<forall>raw \<in> set (ScanLines (file ?g)). length raw < MaxScanTokenSize
               \<and> \<not> snd (Sscanf (dropCR raw) zero_Event)
               \<and> QueryUnescape (Value (parsed raw)) \<noteq> None"
    by (simp add: MakeFileTransactionLogger_def ScanLines_gap_log parsed_def Sscanf_gap_log
        MaxScanTokenSize_def)
  have d1: "sorted_wrt (<) (lastSequence ?d
        # map (\<lambda>raw. Sequence (parsed raw)) (ScanLines (file ?d)))"
    by (simp add: MakeFileTransactionLogger_def ScanLines_gap_delete_log parsed_def
        Sscanf_gap_log Sscanf_gap_delete_log)
  have d2: "\<forall>raw \<in> set (ScanLines (file ?d)). length raw < MaxScanTokenSize"
    by (simp add: MakeFileTransactionLogger_def ScanLines_gap_delete_log MaxScanTokenSize_def)
  have d3: "values_unescape [] (ScanLines (file ?d))"
    by (simp add: MakeFileTransactionLogger_def ScanLines_gap_delete_log scan_defs)
  let ?p = "MakeFileTransactionLogger percent_log"
  have p1: "sorted_wrt (<) (lastSequence ?p
        # map (\<lambda>raw. Sequence (parsed raw)) (ScanLines (file ?p)))"
    by (simp add: MakeFileTransactionLogger_def ScanLines_percent_log parsed_def
        Sscanf_percent_log)
  have p2: "\<forall>raw \<in> set (ScanLines (file ?p)). length raw < MaxScanTokenSize"
    by (simp add: MakeFileTransactionLogger_def ScanLines_percent_log MaxScanTokenSize_def)
  have p3: "\<not> values_unescape [] (ScanLines (file ?p))"
    by (simp add: MakeFileTransactionLogger_def ScanLines_percent_log scan_defs)
  have gaps: "fst (ReadEvents ?g) = (map decoded (ScanLines (file ?g)), None)
      \<and> lastSequence (snd (ReadEvents ?g))
          = last (lastSequence ?g # map (\<lambda>raw. Sequence (parsed raw)) (ScanLines (file ?g)))
      \<and> fst (ReadEvents_001 ?g) = (map parsed (ScanLines (file ?g)), None)"
    using C9_gaps_replay [OF g1] g2 g3 g4 by simp
  have deletes: "snd (fst (ReadEvents ?d)) = None
      \<and> map Sequence (fst (fst (ReadEvents ?d)))
          = map (\<lambda>raw. Sequence (parsed raw)) (ScanLines (file ?d))
      \<and> lastSequence (snd (ReadEvents ?d))
          = last (lastSequence ?d # map (\<lambda>raw. Sequence (parsed raw)) (ScanLines (file ?d)))"
    using C9_gaps_replay [OF d1] d2 d3 by blast
  have percent: "snd (fst (ReadEvents ?p)) = Some ErrValueDecoding"
    using C9_gaps_replay [OF p1] p2 p3 by blast
  show ?thesis
    using g1 g3 d1 d3 p1 p3 gaps deletes percent
    by (simp add: MakeFileTransactionLogger_def ScanLines_gap_log ScanLines_gap_delete_log
        ScanLines_percent_log parsed_def decoded_def Sscanf_gap_log Sscanf_gap_delete_log
        Sscanf_percent_log)
qed

subsection \<open>The worker\<close>

lemma upt_1_Suc_Suc: "[Suc 0..<Suc (Suc n)] = Suc 0 # map Suc [Suc 0..<Suc n]"
  by (simp add: map_Suc_upt upt_conv_Cons del: upt_Suc)

text \<open>
  With an outcome for every queued event, of which no more fail than the error channel
  has room for, the worker of \<open>Run\<close> empties the channel of events: the append
  numbered \<open>k\<close> is that of the \<open>k\<close>-th event, with the sequence number
  \<open>lastSequence + k\<close>, whatever became of the appends before it.
\<close>

lemma Run_closed_form:
  assumes "length ocs = length (events l)"
    and "length (errors l) + length (filter failed ocs) \<le> errors_capacity"
  shows "Run l ocs =
           l\<lparr>events := [],
             lastSequence := lastSequence l + of_nat (length ocs),
             file := file l @ concat (map (\<lambda>(k, e, oc).
                        appended oc (record_text (unat (lastSequence l + of_nat k)) e))
                      (zip [1..<Suc (length ocs)] (zip (events l) ocs))),
             errors := errors l @ replicate (length (filter failed ocs)) ErrLogWrite\<rparr>"
  using assms
proof (induction ocs arbitrary: l)
  case Nil
  then show ?case by simp
next
  case (Cons oc ocs)
  then obtain e es where ev: "events l = e # es"
    by (cases "events l") simp_all
  let ?n = "lastSequence l + 1"
  let ?l1 = "l\<lparr>events := es, lastSequence := ?n,
                file := file l @ appended oc (record_text (unat ?n) e)\<rparr>"
  show ?case
  proof (cases "failed oc")
    case True
    let ?l2 = "?l1\<lparr>errors := errors ?l1 @ [ErrLogWrite]\<rparr>"
    have room: "length (errors l) < errors_capacity"
      using Cons.prems(2) True by simp
    have step: "Run l (oc # ocs) = Run ?l2 ocs"
      using True room by (simp add: ev Let_def)
    have len: "length ocs = length (events ?l2)"
      using Cons.prems(1) ev by simp
    have room2: "length (errors ?l2) + length (filter failed ocs) \<le> errors_capacity"
      using Cons.prems(2) True by simp
    show ?thesis
      unfolding step Cons.IH [OF len room2]
      using True
      by (simp add: ev upt_1_Suc_Suc zip_map1 o_def split_def add.assoc del: upt_Suc)
  next
    case False
    have step: "Run l (oc # ocs) = Run ?l1 ocs"
      using False by (simp add: ev Let_def)
    have len: "length ocs = length (events ?l1)"
      using Cons.prems(1) ev by simp
    have room1: "length (errors ?l1) + length (filter failed ocs) \<le> errors_capacity"
      using Cons.prems(2) False by simp
    show ?thesis
      unfolding step Cons.IH [OF len room1]
      using False
      by (simp add: ev upt_1_Suc_Suc zip_map1 o_def split_def add.assoc del: upt_Suc)
  qed
qed

text \<open>
  Whatever the outcomes, the appends the worker makes are those of the first events of
  the channel, each under the next sequence number.
\<close>

lemma Run_appends:
  assumes "length ocs = length (events l)"
  shows "file (Run l ocs) =
           file l @ concat (map (\<lambda>(k, e, oc).
                      appended oc (record_text (unat (lastSequence l + of_nat k)) e))
                    (zip [1..<Suc (appends_made (length (errors l)) ocs)] (zip (events l) ocs)))"
  using assms
proof (induction ocs arbitrary: l)
  case Nil
  then show ?case by simp
next
  case (Cons oc ocs)
  then obtain e es where ev: "events l = e # es"
    by (cases "events l") simp_all
  let ?n = "lastSequence l + 1"
  let ?l1 = "l\<lparr>events := es, lastSequence := ?n,
                file := file l @ appended oc (record_text (unat ?n) e)\<rparr>"
  let ?l2 = "?l1\<lparr>errors := errors ?l1 @ [ErrLogWrite]\<rparr>"
  have len1: "length ocs = length (events ?l1)" and len2: "length ocs = length (events ?l2)"
    using Cons.prems ev by simp_all
  consider (ok) "\<not> failed oc"
    | (sent) "failed oc" and "length (errors l) < errors_capacity"
    | (waits) "failed oc" and "\<not> length (errors l) < errors_capacity"
    by blast
  then show ?case
  proof cases
    case ok
    then have step: "Run l (oc # ocs) = Run ?l1 ocs"
      by (simp add: ev Let_def)
    show ?thesis
      unfolding step Cons.IH [OF len1]
      using ok
      by (simp add: ev upt_1_Suc_Suc zip_map1 o_def split_def add.assoc del: upt_Suc)
  next
    case sent
    then have step: "Run l (oc # ocs) = Run ?l2 ocs"
      by (simp add: ev Let_def)
    show ?thesis
      unfolding step Cons.IH [OF len2]
      using sent
      by (simp add: ev upt_1_Suc_Suc zip_map1 o_def split_def add.assoc del: upt_Suc)
  next
    case waits
    then have step: "Run l (oc # ocs) = ?l1"
      by (simp add: ev Let_def)
    show ?thesis
      unfolding step using waits by (simp add: ev)
  qed
qed

lemma appends_made_le: "appends_made w ocs \<le> length ocs"
proof (induction ocs arbitrary: w)
  case Nil
  show ?case by simp
next
  case (Cons oc ocs)
  show ?case
    using Cons.IH [of w] Cons.IH [of "Suc w"] by simp
qed

lemma appends_made_all:
  assumes "w + length (filter failed ocs) \<le> errors_capacity"
  shows "appends_made w ocs = length ocs"
  using assms
proof (induction ocs arbitrary: w)
  case Nil
  show ?case by simp
next
  case (Cons oc ocs)
  show ?case
  proof (cases "failed oc")
    case True
    then show ?thesis
      using Cons.prems Cons.IH [of "Suc w"] by (simp add: errors_capacity_def)
  next
    case False
    then show ?thesis
      using Cons.prems Cons.IH [of w] by simp
  qed
qed




text \<open>The earlier worker does the same as long as no append fails, and stops at the first that does.\<close>

lemma Run_001_no_failure:
  assumes "\<forall>oc \<in> set ocs. \<not> failed oc"
  shows "Run_001 l ocs = Run l ocs"
  using assms
proof (induction ocs arbitrary: l)
  case Nil
  show ?case by simp
next
  case (Cons oc ocs)
  then show ?case
    by (cases "events l") (simp_all add: Let_def)
qed

lemma Run_001_stops:
  assumes "events l = pre @ e # post"
    and "length ocs = length pre"
    and "\<forall>oc \<in> set ocs. \<not> failed oc"
    and "length (errors l) < errors_capacity"
  shows "events (Run_001 l (ocs @ Failed n # ocs')) = post
       \<and> lastSequence (Run_001 l (ocs @ Failed n # ocs')) = lastSequence l + of_nat (Suc (length pre))
       \<and> errors (Run_001 l (ocs @ Failed n # ocs')) = errors l @ [ErrLogWrite]"
  using assms
proof (induction ocs arbitrary: l pre)
  case Nil
  then show ?case by (simp add: Let_def)
next
  case (Cons oc ocs)
  then obtain p pre' where pre: "pre = p # pre'"
    by (cases pre) simp_all
  let ?n = "lastSequence l + 1"
  let ?l1 = "l\<lparr>events := pre' @ e # post, lastSequence := ?n,
                file := file l @ appended oc (record_text (unat ?n) p)\<rparr>"
  have step: "Run_001 l ((oc # ocs) @ Failed n # ocs') = Run_001 ?l1 (ocs @ Failed n # ocs')"
    using Cons.prems by (simp add: pre Let_def)
  have "events (Run_001 ?l1 (ocs @ Failed n # ocs')) = post
       \<and> lastSequence (Run_001 ?l1 (ocs @ Failed n # ocs')) = lastSequence ?l1 + of_nat (Suc (length pre'))
       \<and> errors (Run_001 ?l1 (ocs @ Failed n # ocs')) = errors ?l1 @ [ErrLogWrite]"
    using Cons.prems by (intro Cons.IH) (simp_all add: pre)
  then show ?case
    unfolding step by (simp add: pre add.assoc)
qed

lemma unat_sequence:
  assumes "k < 2 ^ 64"
  shows "unat (of_nat k :: 64 word) = k"
  using assms by (simp add: unat_of_nat)

lemma map2_record_text:
  assumes "n < 2 ^ 64" and "length es = n"
  shows "map (\<lambda>(k, e, oc). appended oc (record_text (unat (0 + of_nat k :: 64 word)) e))
             (zip [1..<Suc n] (zip es (replicate n Written)))
       = map2 record_text [1..<Suc n] es"
proof (rule nth_equalityI)
  show "length (map (\<lambda>(k, e, oc). appended oc (record_text (unat (0 + of_nat k :: 64 word)) e))
             (zip [1..<Suc n] (zip es (replicate n Written))))
      = length (map2 record_text [1..<Suc n] es)"
    using assms by simp
next
  fix i
  assume "i < length (map (\<lambda>(k, e, oc). appended oc (record_text (unat (0 + of_nat k :: 64 word)) e))
             (zip [1..<Suc n] (zip es (replicate n Written))))"
  then have i: "i < n" using assms by (simp del: upt_Suc)
  then have "unat (of_nat (Suc i) :: 64 word) = Suc i"
    using assms(1) by (intro unat_sequence) simp
  then show "map (\<lambda>(k, e, oc). appended oc (record_text (unat (0 + of_nat k :: 64 word)) e))
             (zip [1..<Suc n] (zip es (replicate n Written))) ! i
      = map2 record_text [1..<Suc n] es ! i"
    using i assms(2) by (simp del: upt_Suc of_nat_Suc)
qed

lemma numbered_appends:
  assumes "n < 2 ^ 64"
  shows "map (\<lambda>(k, e, oc). appended oc (record_text (unat (0 + of_nat k :: 64 word)) e))
             (zip [1..<Suc n] eos)
       = map (\<lambda>(k, e, oc). appended oc (record_text k e)) (zip [1..<Suc n] eos)"
proof (rule map_cong [OF refl])
  fix x
  assume x: "x \<in> set (zip [1..<Suc n] eos)"
  obtain k e oc where kx: "x = (k, e, oc)"
    by (cases x) auto
  have "k \<in> set [1..<Suc n]"
    using x unfolding kx by (rule set_zip_leftD)
  then have "k \<le> n"
    by (simp del: upt_Suc)
  then have "k < 2 ^ 64"
    using assms by (rule le_less_trans)
  then have "unat (of_nat k :: 64 word) = k"
    by (rule unat_sequence)
  then show "(case x of (k, e, oc) \<Rightarrow>
                appended oc (record_text (unat (0 + of_nat k :: 64 word)) e))
           = (case x of (k, e, oc) \<Rightarrow> appended oc (record_text k e))"
    by (simp add: kx)
qed

text \<open>
  C3.  Every append of the worker is given the sequence number \<open>lastSequence + 1\<close> at
  the moment of the append, so the appends made to a fresh, empty log carry the
  sequence numbers 1, 2, 3, ...: strictly increasing, with no gaps, and where every
  append succeeds the file holds the records numbered 1, 2, 3, ...  (The counter is a
  64-bit integer, hence the bound on the number of events.  An append that fails has
  used up its number.  The appends made are those of all the events where no more
  appends fail than the error channel has room for.)
\<close>

theorem C3_sequence_numbers:
  assumes "length es < 2 ^ 64"
    and "length ocs = length es"
  shows "file (Run ((MakeFileTransactionLogger [])\<lparr>events := es\<rparr>) ocs)
           = concat (map (\<lambda>(k, e, oc). appended oc (record_text k e))
                      (zip [1..<Suc (appends_made 0 ocs)] (zip es ocs)))
       \<and> (length (filter failed ocs) \<le> errors_capacity
          \<longrightarrow> file (Run ((MakeFileTransactionLogger [])\<lparr>events := es\<rparr>) ocs)
                = concat (map (\<lambda>(k, e, oc). appended oc (record_text k e))
                           (zip [1..<Suc (length es)] (zip es ocs))))
       \<and> file (Run ((MakeFileTransactionLogger [])\<lparr>events := es\<rparr>) (replicate (length es) Written))
           = concat (map2 record_text [1..<Suc (length es)] es)
       \<and> file (Run_001 ((MakeFileTransactionLogger [])\<lparr>events := es\<rparr>) (replicate (length es) Written))
           = concat (map2 record_text [1..<Suc (length es)] es)
       \<and> lastSequence (Run (l\<lparr>events := e # q\<rparr>) [oc]) = lastSequence l + 1
       \<and> file (Run (l\<lparr>events := e # q\<rparr>) [oc])
           = file l @ appended oc (record_text (unat (lastSequence l + 1)) e)
       \<and> lastSequence (Run_001 (l\<lparr>events := e # q\<rparr>) [oc]) = lastSequence l + 1
       \<and> file (Run_001 (l\<lparr>events := e # q\<rparr>) [oc])
           = file l @ appended oc (record_text (unat (lastSequence l + 1)) e)"
proof -
  let ?l0 = "(MakeFileTransactionLogger [])\<lparr>events := es\<rparr>"
  let ?ws = "replicate (length es) Written"
  have len: "length ocs = length (events ?l0)"
    using assms(2) by simp
  have made: "appends_made 0 ocs < 2 ^ 64"
    using appends_made_le [of 0 ocs] assms by simp
  have "file (Run ?l0 ocs)
           = concat (map (\<lambda>(k, e, oc).
                        appended oc (record_text (unat (0 + of_nat k :: 64 word)) e))
                      (zip [1..<Suc (appends_made 0 ocs)] (zip es ocs)))"
    unfolding Run_appends [OF len]
    by (simp add: MakeFileTransactionLogger_def del: upt_Suc)
  then have general: "file (Run ?l0 ocs)
           = concat (map (\<lambda>(k, e, oc). appended oc (record_text k e))
                      (zip [1..<Suc (appends_made 0 ocs)] (zip es ocs)))"
    unfolding numbered_appends [OF made] .
  have room: "length (filter failed ocs) \<le> errors_capacity
          \<longrightarrow> file (Run ?l0 ocs)
                = concat (map (\<lambda>(k, e, oc). appended oc (record_text k e))
                           (zip [1..<Suc (length es)] (zip es ocs)))"
    using general appends_made_all [of 0 ocs] assms(2) by simp
  have lenw: "length ?ws = length (events ?l0)" by simp
  have roomw: "length (errors ?l0) + length (filter failed ?ws) \<le> errors_capacity"
    by (simp add: MakeFileTransactionLogger_def)
  have written: "file (Run ?l0 ?ws) = concat (map2 record_text [1..<Suc (length es)] es)"
    unfolding Run_closed_form [OF lenw roomw]
    using map2_record_text [OF assms(1) refl]
    by (simp add: MakeFileTransactionLogger_def del: upt_Suc)
  have "Run_001 ?l0 ?ws = Run ?l0 ?ws"
    by (rule Run_001_no_failure) simp
  with general room written show ?thesis
    by (simp add: Let_def)
qed

theorem C3_sequence_numbers_witness:
  "length [\<lparr>Sequence = 0, EventType = EventPut, Key = ''x'', Value = ''42''\<rparr>,
           \<lparr>Sequence = 0, EventType = EventDelete, Key = ''x'', Value = []\<rparr>] < 2 ^ 64
   \<and> length [Written, Written] =
       length [\<lparr>Sequence = 0, EventType = EventPut, Key = ''x'', Value = ''42''\<rparr>,
               \<lparr>Sequence = 0, EventType = EventDelete, Key = ''x'', Value = []\<rparr>]
   \<and> file (Run (WriteDelete (WritePut (MakeFileTransactionLogger []) ''x'' ''42'') ''x'')
        [Written, Written]) = put_delete_log
   \<and> file (Run_001 (WriteDelete (WritePut (MakeFileTransactionLogger []) ''x'' ''42'') ''x'')
        [Written, Written]) = put_delete_log
   \<and> length (filter failed [Failed 0, Written]) \<le> errors_capacity
   \<and> file (Run (WriteDelete (WritePut (MakeFileTransactionLogger []) ''x'' ''42'') ''x'')
        [Failed 0, Written]) = ''2'' @ [TAB] @ ''1'' @ [TAB] @ ''x'' @ [TAB] @ [NL]"
proof -
  let ?es = "[\<lparr>Sequence = 0, EventType = EventPut, Key = ''x'', Value = ''42''\<rparr>,
           \<lparr>Sequence = 0, EventType = EventDelete, Key = ''x'', Value = []\<rparr>]"
  have h: "length ?es < 2 ^ 64" by simp
  have h2: "length [Written, Written] = length ?es" by simp
  have q: "WriteDelete (WritePut (MakeFileTransactionLogger []) ''x'' ''42'') ''x''
             = (MakeFileTransactionLogger [])\<lparr>events := ?es\<rparr>"
    by (simp add: WriteDelete_def WritePut_def MakeFileTransactionLogger_def)
  have idx: "[1..<Suc (length ?es)] = [1, 2]"
    by (simp add: upt_conv_Cons)
  have content: "concat (map2 record_text [1, 2] ?es) = put_delete_log"
    by (simp add: put_delete_log_def print_defs EventPut_def EventDelete_def)
  have both: "file (Run ((MakeFileTransactionLogger [])\<lparr>events := ?es\<rparr>)
                 (replicate (length ?es) Written))
           = concat (map2 record_text [1..<Suc (length ?es)] ?es)
       \<and> file (Run_001 ((MakeFileTransactionLogger [])\<lparr>events := ?es\<rparr>)
                 (replicate (length ?es) Written))
           = concat (map2 record_text [1..<Suc (length ?es)] ?es)"
    using C3_sequence_numbers [where l = "MakeFileTransactionLogger []" and e = zero_Event
        and q = "[]" and oc = Written, OF h h2]
    by blast
  have outcomes: "replicate (length ?es) Written = [Written, Written]"
    by simp
  have h3: "length [Failed 0, Written] = length ?es" by simp
  have room: "length (filter failed [Failed 0, Written]) \<le> errors_capacity"
    by (simp add: errors_capacity_def)
  have "file (Run ((MakeFileTransactionLogger [])\<lparr>events := ?es\<rparr>) [Failed 0, Written])
          = concat (map (\<lambda>(k, e, oc). appended oc (record_text k e))
                      (zip [1..<Suc (length ?es)] (zip ?es [Failed 0, Written])))"
    using room C3_sequence_numbers [where l = "MakeFileTransactionLogger []" and e = zero_Event
        and q = "[]" and oc = Written, OF h h3]
    by blast
  then have one_failure:
    "file (Run ((MakeFileTransactionLogger [])\<lparr>events := ?es\<rparr>) [Failed 0, Written])
          = ''2'' @ [TAB] @ ''1'' @ [TAB] @ ''x'' @ [TAB] @ [NL]"
    unfolding idx by (simp add: print_defs EventDelete_def)
  show ?thesis
    using h both room one_failure unfolding q idx content outcomes by simp
qed

subsection \<open>Replay stops at a record out of sequence\<close>

lemma replay_events_no_error: "fst (replay_events s evs) = None"
  by (induction evs arbitrary: s)
     (simp_all add: replay_event_def Put_def Delete_def split: prod.splits option.splits)

lemma initTransactionLogger_ReadEvents:
  assumes "ReadEvents l = ((evs, err), l')"
  shows "initTransactionLogger seen s l =
           (if seen then err else None, snd (replay_events s evs), l')"
  using assms replay_events_no_error [of s evs]
  by (cases "replay_events s evs") (simp add: initTransactionLogger_def)

lemma Sscanf_Sequence:
  assumes "scanUint 64 (runes s) = Some (n, r)"
  shows "Sequence (fst (Sscanf s e)) = of_nat n"
  using assms by (simp add: Sscanf_def Let_def split: option.splits prod.splits)

lemma ReadEvents_loop_last:
  assumes "ReadEvents_loop ls e pre = (evs, None, prev)"
  shows "prev = (if evs = [] then ls else Sequence (last evs))"
  using assms
proof (induction pre arbitrary: ls e evs)
  case Nil
  then show ?case by simp
next
  case (Cons raw pre)
  show ?case
    using Cons.prems
    by (auto simp: Let_def split: if_splits option.splits prod.splits dest: Cons.IH)
qed

lemma ReadEvents_001_loop_last:
  assumes "ReadEvents_001_loop ls e pre = (evs, None, prev)"
  shows "prev = (if evs = [] then ls else Sequence (last evs))"
  using assms
proof (induction pre arbitrary: ls e evs)
  case Nil
  then show ?case by simp
next
  case (Cons raw pre)
  show ?case
    using Cons.prems
    by (auto simp: Let_def split: if_splits option.splits prod.splits bool.splits dest: Cons.IH)
qed

text \<open>
  C2.  In a log file in which a record's sequence number \<open>n\<close> is less than or equal
  to that of the record before it (\<open>prev\<close>, the \<open>lastSequence\<close> the records before
  it leave), \<open>ReadEvents\<close> fails with the out-of-sequence error at that record and
  sends no further event: the events are those of the records before it, and
  \<open>initTransactionLogger\<close> applies no record after it to the store.  Both iterations
  of \<open>ReadEvents\<close> do so, the earlier one for a record that scans.
  (\<open>initTransactionLogger\<close> returns the error when its \<open>select\<close> receives it.)
\<close>

theorem C2_out_of_order:
  assumes "ScanLines (file l) = pre @ raw # post"
    and "length raw < MaxScanTokenSize"
    and "scanUint 64 (runes (dropCR raw)) = Some (n, r)"
  shows "(ReadEvents_loop (lastSequence l) zero_Event pre = (evs, None, prev)
            \<and> of_nat n \<le> prev
          \<longrightarrow> ReadEvents l = ((evs, Some ErrOutOfSequence), l\<lparr>lastSequence := prev\<rparr>)
            \<and> initTransactionLogger seen s l =
                (if seen then Some ErrOutOfSequence else None,
                 snd (replay_events s evs), l\<lparr>lastSequence := prev\<rparr>)
            \<and> prev = (if evs = [] then lastSequence l else Sequence (last evs)))
       \<and> (ReadEvents_001_loop (lastSequence l) zero_Event pre = (evs1, None, prev1)
            \<and> \<not> snd (Sscanf (dropCR raw) zero_Event)
            \<and> of_nat n \<le> prev1
          \<longrightarrow> ReadEvents_001 l = ((evs1, Some ErrOutOfSequence), l\<lparr>lastSequence := prev1\<rparr>)
            \<and> prev1 = (if evs1 = [] then lastSequence l else Sequence (last evs1)))"
proof (intro conjI impI)
  assume a: "ReadEvents_loop (lastSequence l) zero_Event pre = (evs, None, prev)
               \<and> of_nat n \<le> prev"
  let ?e = "if evs = [] then zero_Event else last evs"
  have "ReadEvents_loop prev ?e (raw # post) = ([], Some ErrOutOfSequence, prev)"
    using a assms(2) by (simp add: Sscanf_Sequence [OF assms(3)] Let_def)
  then have "ReadEvents_loop (lastSequence l) zero_Event (pre @ raw # post) =
               (evs, Some ErrOutOfSequence, prev)"
    using ReadEvents_loop_append [of "lastSequence l" zero_Event pre evs prev "raw # post"] a
    by simp
  then show r: "ReadEvents l = ((evs, Some ErrOutOfSequence), l\<lparr>lastSequence := prev\<rparr>)"
    by (simp add: ReadEvents_def assms(1))
  show "initTransactionLogger seen s l =
          (if seen then Some ErrOutOfSequence else None,
           snd (replay_events s evs), l\<lparr>lastSequence := prev\<rparr>)"
    by (rule initTransactionLogger_ReadEvents [OF r])
  show "prev = (if evs = [] then lastSequence l else Sequence (last evs))"
    using a by (intro ReadEvents_loop_last [of _ zero_Event pre]) simp
next
  assume a: "ReadEvents_001_loop (lastSequence l) zero_Event pre = (evs1, None, prev1)
               \<and> \<not> snd (Sscanf (dropCR raw) zero_Event)
               \<and> of_nat n \<le> prev1"
  let ?e = "if evs1 = [] then zero_Event else last evs1"
  have ok: "\<not> snd (Sscanf (dropCR raw) ?e)"
    using a Sscanf_failed_any [of "dropCR raw" ?e zero_Event] by simp
  have "ReadEvents_001_loop prev1 ?e (raw # post) = ([], Some ErrOutOfSequence, prev1)"
    using a assms(2) ok Sscanf_Sequence [OF assms(3), of ?e]
    by (cases "Sscanf (dropCR raw) ?e") (simp add: Let_def)
  then have "ReadEvents_001_loop (lastSequence l) zero_Event (pre @ raw # post) =
               (evs1, Some ErrOutOfSequence, prev1)"
    using ReadEvents_001_loop_append [of "lastSequence l" zero_Event pre evs1 prev1 "raw # post"] a
    by simp
  then show "ReadEvents_001 l = ((evs1, Some ErrOutOfSequence), l\<lparr>lastSequence := prev1\<rparr>)"
    by (simp add: ReadEvents_001_def assms(1))
  show "prev1 = (if evs1 = [] then lastSequence l else Sequence (last evs1))"
    using a by (intro ReadEvents_001_loop_last [of _ zero_Event pre]) simp
qed

lemma ScanLines_unordered_log:
  "ScanLines unordered_log =
     [[CHR ''1'', TAB, CHR ''2'', TAB, CHR ''x'', TAB, CHR ''4'', CHR ''2'']]
     @ [CHR ''1'', TAB, CHR ''2'', TAB, CHR ''y'', TAB, CHR ''7'']
     # [[CHR ''2'', TAB, CHR ''2'', TAB, CHR ''z'', TAB, CHR ''8'']]"
  by (simp add: unordered_log_def NL_def TAB_def)

lemma Sscanf_unordered_log:
  "Sscanf (dropCR [CHR ''1'', TAB, CHR ''2'', TAB, CHR ''y'', TAB, CHR ''7'']) zero_Event =
     (\<lparr>Sequence = 1, EventType = 2, Key = ''y'', Value = ''7''\<rparr>, False)"
  "scanUint 64 (runes (dropCR [CHR ''1'', TAB, CHR ''2'', TAB, CHR ''y'', TAB, CHR ''7''])) =
     Some (1, [9, 50, 9, 121, 9, 55])"
  by (simp_all add: scan_defs)

lemma ReadEvents_loop_first:
  "ReadEvents_loop 0 zero_Event
     [[CHR ''1'', TAB, CHR ''2'', TAB, CHR ''x'', TAB, CHR ''4'', CHR ''2'']] =
     ([\<lparr>Sequence = 1, EventType = 2, Key = ''x'', Value = ''42''\<rparr>], None, 1)"
  "ReadEvents_001_loop 0 zero_Event
     [[CHR ''1'', TAB, CHR ''2'', TAB, CHR ''x'', TAB, CHR ''4'', CHR ''2'']] =
     ([\<lparr>Sequence = 1, EventType = 2, Key = ''x'', Value = ''42''\<rparr>], None, 1)"
  by (simp_all add: Sscanf_gap_log MaxScanTokenSize_def Let_def)

theorem C2_out_of_order_witness:
  "ScanLines (file (MakeFileTransactionLogger unordered_log)) =
     [[CHR ''1'', TAB, CHR ''2'', TAB, CHR ''x'', TAB, CHR ''4'', CHR ''2'']]
     @ [CHR ''1'', TAB, CHR ''2'', TAB, CHR ''y'', TAB, CHR ''7'']
     # [[CHR ''2'', TAB, CHR ''2'', TAB, CHR ''z'', TAB, CHR ''8'']]
   \<and> length [CHR ''1'', TAB, CHR ''2'', TAB, CHR ''y'', TAB, CHR ''7''] < MaxScanTokenSize
   \<and> scanUint 64 (runes (dropCR [CHR ''1'', TAB, CHR ''2'', TAB, CHR ''y'', TAB, CHR ''7''])) =
       Some (1, [9, 50, 9, 121, 9, 55])
   \<and> \<not> snd (Sscanf (dropCR [CHR ''1'', TAB, CHR ''2'', TAB, CHR ''y'', TAB, CHR ''7'']) zero_Event)
   \<and> ReadEvents_loop (lastSequence (MakeFileTransactionLogger unordered_log)) zero_Event
        [[CHR ''1'', TAB, CHR ''2'', TAB, CHR ''x'', TAB, CHR ''4'', CHR ''2'']] =
        ([\<lparr>Sequence = 1, EventType = 2, Key = ''x'', Value = ''42''\<rparr>], None, 1)
   \<and> ReadEvents_001_loop (lastSequence (MakeFileTransactionLogger unordered_log)) zero_Event
        [[CHR ''1'', TAB, CHR ''2'', TAB, CHR ''x'', TAB, CHR ''4'', CHR ''2'']] =
        ([\<lparr>Sequence = 1, EventType = 2, Key = ''x'', Value = ''42''\<rparr>], None, 1)
   \<and> (of_nat 1 :: 64 word) \<le> 1
   \<and> fst (ReadEvents (MakeFileTransactionLogger unordered_log)) =
        ([\<lparr>Sequence = 1, EventType = 2, Key = ''x'', Value = ''42''\<rparr>], Some ErrOutOfSequence)
   \<and> fst (initTransactionLogger True empty_KVS (MakeFileTransactionLogger unordered_log)) =
        Some ErrOutOfSequence
   \<and> M (fst (snd (initTransactionLogger True empty_KVS (MakeFileTransactionLogger unordered_log)))) =
        [''x'' \<mapsto> ''42'']
   \<and> fst (ReadEvents_001 (MakeFileTransactionLogger unordered_log)) =
        ([\<lparr>Sequence = 1, EventType = 2, Key = ''x'', Value = ''42''\<rparr>], Some ErrOutOfSequence)"
proof -
  let ?l = "MakeFileTransactionLogger unordered_log"
  let ?raw = "[CHR ''1'', TAB, CHR ''2'', TAB, CHR ''y'', TAB, CHR ''7'']"
  let ?ev = "\<lparr>Sequence = 1, EventType = 2, Key = ''x'', Value = ''42''\<rparr>"
  have h1: "ScanLines (file ?l) =
     [[CHR ''1'', TAB, CHR ''2'', TAB, CHR ''x'', TAB, CHR ''4'', CHR ''2'']]
     @ ?raw # [[CHR ''2'', TAB, CHR ''2'', TAB, CHR ''z'', TAB, CHR ''8'']]"
    by (simp add: MakeFileTransactionLogger_def ScanLines_unordered_log)
  have h2: "length ?raw < MaxScanTokenSize"
    by (simp add: MaxScanTokenSize_def)
  have h3: "scanUint 64 (runes (dropCR ?raw)) = Some (1, [9, 50, 9, 121, 9, 55])"
    by (rule Sscanf_unordered_log)
  have h4: "ReadEvents_loop (lastSequence ?l) zero_Event
        [[CHR ''1'', TAB, CHR ''2'', TAB, CHR ''x'', TAB, CHR ''4'', CHR ''2'']] = ([?ev], None, 1)"
    and h5: "ReadEvents_001_loop (lastSequence ?l) zero_Event
        [[CHR ''1'', TAB, CHR ''2'', TAB, CHR ''x'', TAB, CHR ''4'', CHR ''2'']] = ([?ev], None, 1)"
    by (simp_all add: MakeFileTransactionLogger_def ReadEvents_loop_first
        del: ReadEvents_loop.simps ReadEvents_001_loop.simps)
  have h6: "\<not> snd (Sscanf (dropCR ?raw) zero_Event)"
    by (simp add: Sscanf_unordered_log)
  have store: "M (snd (replay_events empty_KVS [?ev])) = [''x'' \<mapsto> ''42'']"
    by (simp add: replay_event_def empty_KVS_def Put_def EventPut_def EventDelete_def)
  show ?thesis
    using h1 h2 h3 h4 h5 h6 store
      C2_out_of_order [OF h1 h2 h3, of "[?ev]" 1 True empty_KVS "[?ev]" 1]
    by simp
qed

subsection \<open>A failed append\<close>




subsection \<open>Replay of a put and a delete\<close>

lemma ScanLines_put_delete_log:
  "ScanLines put_delete_log =
     [[CHR ''1'', TAB, CHR ''2'', TAB, CHR ''x'', TAB, CHR ''4'', CHR ''2''],
      [CHR ''2'', TAB, CHR ''1'', TAB, CHR ''x'', TAB]]"
  by (simp add: put_delete_log_def NL_def TAB_def)

text \<open>
  The record of a delete ends with the tab before its empty value: the fourth verb
  finds no input, \<open>Sscanf\<close> returns an error and the value of the event before stays.
\<close>

lemma Sscanf_delete_record:
  "Sscanf (dropCR [CHR ''2'', TAB, CHR ''1'', TAB, CHR ''x'', TAB])
      \<lparr>Sequence = 1, EventType = 2, Key = ''x'', Value = ''42''\<rparr> =
     (\<lparr>Sequence = 2, EventType = 1, Key = ''x'', Value = ''42''\<rparr>, True)"
  by (simp add: scan_defs)

lemma ReadEvents_put_delete_log:
  "ReadEvents (MakeFileTransactionLogger put_delete_log) =
     (([\<lparr>Sequence = 1, EventType = 2, Key = ''x'', Value = ''42''\<rparr>,
        \<lparr>Sequence = 2, EventType = 1, Key = ''x'', Value = ''42''\<rparr>], None),
      (MakeFileTransactionLogger put_delete_log)\<lparr>lastSequence := 2\<rparr>)"
  by (simp add: ReadEvents_def MakeFileTransactionLogger_def ScanLines_put_delete_log
      Sscanf_gap_log Sscanf_delete_record MaxScanTokenSize_def Let_def word_le_nat_alt)

text \<open>The earlier iteration stops at the record of the delete.\<close>

lemma ReadEvents_001_put_delete_log:
  "ReadEvents_001 (MakeFileTransactionLogger put_delete_log) =
     (([\<lparr>Sequence = 1, EventType = 2, Key = ''x'', Value = ''42''\<rparr>], Some ErrInputParse),
      (MakeFileTransactionLogger put_delete_log)\<lparr>lastSequence := 1\<rparr>)"
  by (simp add: ReadEvents_001_def MakeFileTransactionLogger_def ScanLines_put_delete_log
      Sscanf_gap_log Sscanf_delete_record MaxScanTokenSize_def Let_def word_le_nat_alt)

text \<open>
  C7.  Replaying the two-line log \<open>1\t2\tx\t42\n2\t1\tx\t\n\<close>, a put of
  \<open>x = 42\<close> followed by a delete of \<open>x\<close>, succeeds and leaves the store empty.
\<close>

theorem C7_put_delete_replay:
  "initTransactionLogger seen empty_KVS (MakeFileTransactionLogger put_delete_log) =
     (None, empty_KVS, (MakeFileTransactionLogger put_delete_log)\<lparr>lastSequence := 2\<rparr>)"
proof -
  have "snd (replay_events empty_KVS
          [\<lparr>Sequence = 1, EventType = 2, Key = ''x'', Value = ''42''\<rparr>,
           \<lparr>Sequence = 2, EventType = 1, Key = ''x'', Value = ''42''\<rparr>]) = empty_KVS"
    by (simp add: replay_event_def empty_KVS_def Put_def Delete_def EventPut_def EventDelete_def)
  then show ?thesis
    using initTransactionLogger_ReadEvents [OF ReadEvents_put_delete_log, of seen empty_KVS]
    by simp
qed

subsection \<open>A record that does not scan\<close>

lemma ScanLines_malformed_log:
  "ScanLines malformed_log =
     [[CHR ''1'', TAB, CHR ''2'', TAB, CHR ''x'', TAB, CHR ''4'', CHR ''2''],
      [CHR ''2'', TAB, CHR ''g'', CHR ''a'', CHR ''r'', CHR ''b'', CHR ''a'', CHR ''g'', CHR ''e'']]"
  by (simp add: malformed_log_def NL_def TAB_def)

lemma Sscanf_malformed_record:
  "Sscanf (dropCR [CHR ''2'', TAB, CHR ''g'', CHR ''a'', CHR ''r'', CHR ''b'', CHR ''a'', CHR ''g'', CHR ''e''])
      \<lparr>Sequence = 1, EventType = 2, Key = ''x'', Value = ''42''\<rparr> =
     (\<lparr>Sequence = 2, EventType = 2, Key = ''x'', Value = ''42''\<rparr>, True)"
  by (simp add: scan_defs)

text \<open>The earlier iteration reports a record that does not scan and sends no further event.\<close>

lemma ReadEvents_001_malformed:
  assumes "ScanLines (file l) = pre @ raw # post"
    and "length raw < MaxScanTokenSize"
    and "snd (Sscanf (dropCR raw) zero_Event)"
    and "ReadEvents_001_loop (lastSequence l) zero_Event pre = (evs, None, prev)"
  shows "ReadEvents_001 l = ((evs, Some ErrInputParse), l\<lparr>lastSequence := prev\<rparr>)"
proof -
  let ?e = "if evs = [] then zero_Event else last evs"
  have "snd (Sscanf (dropCR raw) ?e)"
    using assms(3) Sscanf_failed_any [of "dropCR raw" ?e zero_Event] by simp
  then have "ReadEvents_001_loop prev ?e (raw # post) = ([], Some ErrInputParse, prev)"
    using assms(2) by (cases "Sscanf (dropCR raw) ?e") simp
  then have "ReadEvents_001_loop (lastSequence l) zero_Event (pre @ raw # post) =
               (evs, Some ErrInputParse, prev)"
    using ReadEvents_001_loop_append [OF assms(4), of "raw # post"] by simp
  then show ?thesis
    by (simp add: ReadEvents_001_def assms(1))
qed

text \<open>
  C5.  The claim: a record whose fields cannot be parsed makes recovery fail at once
  with a parse error, it is never skipped and no record after it is sent or applied.
  \<open>ReadEvents\<close> of the later logger drops the result of \<open>Sscanf\<close>: the second record
  of \<open>malformed_log\<close> does not scan, and it is sent as an event made of its sequence
  number and the fields of the record before, with no error.
\<close>

theorem C5_malformed_record_replayed:
  "snd (Sscanf (dropCR [CHR ''2'', TAB, CHR ''g'', CHR ''a'', CHR ''r'', CHR ''b'', CHR ''a'', CHR ''g'', CHR ''e''])
         zero_Event)
   \<and> ReadEvents (MakeFileTransactionLogger malformed_log) =
       (([\<lparr>Sequence = 1, EventType = 2, Key = ''x'', Value = ''42''\<rparr>,
          \<lparr>Sequence = 2, EventType = 2, Key = ''x'', Value = ''42''\<rparr>], None),
        (MakeFileTransactionLogger malformed_log)\<lparr>lastSequence := 2\<rparr>)
   \<and> fst (ReadEvents_001 (MakeFileTransactionLogger malformed_log)) =
       ([\<lparr>Sequence = 1, EventType = 2, Key = ''x'', Value = ''42''\<rparr>], Some ErrInputParse)"
proof -
  have "snd (Sscanf (dropCR [CHR ''2'', TAB, CHR ''g'', CHR ''a'', CHR ''r'', CHR ''b'', CHR ''a'', CHR ''g'', CHR ''e''])
         zero_Event)"
    by (simp add: scan_defs)
  moreover have "ReadEvents (MakeFileTransactionLogger malformed_log) =
       (([\<lparr>Sequence = 1, EventType = 2, Key = ''x'', Value = ''42''\<rparr>,
          \<lparr>Sequence = 2, EventType = 2, Key = ''x'', Value = ''42''\<rparr>], None),
        (MakeFileTransactionLogger malformed_log)\<lparr>lastSequence := 2\<rparr>)"
    by (simp add: ReadEvents_def MakeFileTransactionLogger_def ScanLines_malformed_log
        Sscanf_gap_log Sscanf_malformed_record MaxScanTokenSize_def Let_def word_le_nat_alt)
  moreover have "fst (ReadEvents_001 (MakeFileTransactionLogger malformed_log)) =
       ([\<lparr>Sequence = 1, EventType = 2, Key = ''x'', Value = ''42''\<rparr>], Some ErrInputParse)"
    by (simp add: ReadEvents_001_def MakeFileTransactionLogger_def ScanLines_malformed_log
        Sscanf_gap_log Sscanf_malformed_record MaxScanTokenSize_def Let_def word_le_nat_alt)
  ultimately show ?thesis by simp
qed

subsection \<open>A round trip\<close>

lemma Sscanf_put_k:
  "Sscanf (dropCR [CHR ''1'', TAB, CHR ''2'', TAB, CHR ''k'', TAB, CHR ''a'', CHR '' '', CHR ''b''])
      zero_Event =
     (\<lparr>Sequence = 1, EventType = 2, Key = ''k'', Value = ''a''\<rparr>, False)"
  by (simp add: scan_defs)

lemma ScanLines_space_value_log:
  "ScanLines space_value_log =
     [[CHR ''1'', TAB, CHR ''2'', TAB, CHR ''k'', TAB, CHR ''a'', CHR '' '', CHR ''b'']]"
  by (simp add: space_value_log_def NL_def TAB_def)

lemma round_trip_put_k:
  "round_trip [PutOp ''k'' ''a b''] = (None, \<lparr>M = [''k'' \<mapsto> ''a'']\<rparr>)"
proof -
  have queued: "foldl write_intent (MakeFileTransactionLogger []) [PutOp ''k'' ''a b''] =
      (MakeFileTransactionLogger [])
         \<lparr>events := [\<lparr>Sequence = 0, EventType = EventPut, Key = ''k'', Value = ''a b''\<rparr>]\<rparr>"
    by (simp add: WritePut_def MakeFileTransactionLogger_def)
  have written: "file (Run ((MakeFileTransactionLogger [])
         \<lparr>events := [\<lparr>Sequence = 0, EventType = EventPut, Key = ''k'', Value = ''a b''\<rparr>]\<rparr>)
         [Written]) = space_value_log"
    by (simp add: MakeFileTransactionLogger_def Let_def print_defs EventPut_def
        space_value_log_def)
  have replayed: "ReadEvents (MakeFileTransactionLogger space_value_log) =
      (([\<lparr>Sequence = 1, EventType = 2, Key = ''k'', Value = ''a''\<rparr>], None),
       (MakeFileTransactionLogger space_value_log)\<lparr>lastSequence := 1\<rparr>)"
    by (simp add: ReadEvents_def MakeFileTransactionLogger_def ScanLines_space_value_log
        Sscanf_put_k MaxScanTokenSize_def Let_def word_le_nat_alt)
  have applied: "snd (replay_events empty_KVS
        [\<lparr>Sequence = 1, EventType = 2, Key = ''k'', Value = ''a''\<rparr>]) = \<lparr>M = [''k'' \<mapsto> ''a'']\<rparr>"
    by (simp add: replay_event_def empty_KVS_def Put_def EventPut_def EventDelete_def)
  have outcomes: "replicate (length [PutOp ''k'' ''a b'']) Written = [Written]"
    by simp
  show ?thesis
    unfolding round_trip_def
    by (simp only: Let_def prod.case queued outcomes written
        initTransactionLogger_ReadEvents [OF replayed] applied if_True)
qed

text \<open>
  C1.  The claim: for every sequence of put and delete operations, writing the events
  through \<open>WritePut\<close> and \<open>WriteDelete\<close> and the worker of \<open>Run\<close>, and replaying the
  file with \<open>ReadEvents\<close> into an empty store, gives the store that the operations
  give when applied directly.  A put of the value \<open>a b\<close> is written as it is and read
  back by the verb \<open>%s\<close> up to the space: the replay succeeds and stores \<open>a\<close>,
  where the put itself stores \<open>a b\<close>.
\<close>

theorem C1_round_trip_loses_value:
  "file (Run (WritePut (MakeFileTransactionLogger []) ''k'' ''a b'') [Written]) = space_value_log
   \<and> fst (ReadEvents (MakeFileTransactionLogger space_value_log)) =
       ([\<lparr>Sequence = 1, EventType = 2, Key = ''k'', Value = ''a''\<rparr>], None)
   \<and> fst (ReadEvents_001 (MakeFileTransactionLogger space_value_log)) =
       ([\<lparr>Sequence = 1, EventType = 2, Key = ''k'', Value = ''a''\<rparr>], None)
   \<and> fst (round_trip [PutOp ''k'' ''a b'']) = None
   \<and> M (snd (round_trip [PutOp ''k'' ''a b''])) ''k'' = Some ''a''
   \<and> M (mutate_all empty_KVS [PutOp ''k'' ''a b'']) ''k'' = Some ''a b''"
proof -
  have "file (Run (WritePut (MakeFileTransactionLogger []) ''k'' ''a b'') [Written]) =
          space_value_log"
    by (simp add: WritePut_def MakeFileTransactionLogger_def Let_def print_defs EventPut_def
        space_value_log_def)
  moreover have "fst (ReadEvents (MakeFileTransactionLogger space_value_log)) =
       ([\<lparr>Sequence = 1, EventType = 2, Key = ''k'', Value = ''a''\<rparr>], None)"
    by (simp add: ReadEvents_def MakeFileTransactionLogger_def ScanLines_space_value_log
        Sscanf_put_k MaxScanTokenSize_def Let_def word_le_nat_alt)
  moreover have "fst (ReadEvents_001 (MakeFileTransactionLogger space_value_log)) =
       ([\<lparr>Sequence = 1, EventType = 2, Key = ''k'', Value = ''a''\<rparr>], None)"
    by (simp add: ReadEvents_001_def MakeFileTransactionLogger_def ScanLines_space_value_log
        Sscanf_put_k MaxScanTokenSize_def Let_def word_le_nat_alt)
  ultimately show ?thesis
    by (simp add: round_trip_put_k mutate_all_def Put_def empty_KVS_def)
qed

subsection \<open>The empty key\<close>

text \<open>
  C8, as claimed: every put or delete invoked with an empty key is rejected with a
  validation error, and no event for it is recorded in the log.  At the empty key
  and the value \<open>v\<close>, \<open>Put\<close> returns no error and stores the value, and the event
  of \<open>WritePut\<close> is appended to the log.
\<close>

theorem C8_empty_key_counterexample:
  "fst (Put empty_KVS [] ''v'') = None
   \<and> M (snd (Put empty_KVS [] ''v'')) [] = Some ''v''
   \<and> file (Run (WritePut (MakeFileTransactionLogger []) [] ''v'') [Written]) =
       ''1'' @ [TAB] @ ''2'' @ [TAB] @ [TAB] @ ''v'' @ [NL]"
  by (simp add: Put_def empty_KVS_def WritePut_def MakeFileTransactionLogger_def Let_def
      print_defs EventPut_def)

text \<open>
  C8, as amended.  A put or delete invoked with an empty key is accepted like any
  other: \<open>Put\<close> and \<open>Delete\<close> return no error and update the map at the empty key,
  \<open>WritePut\<close> and \<open>WriteDelete\<close> queue an event with the empty key, and the
  worker appends its record to the log.
\<close>

theorem C8_empty_key_accepted:
  "fst (Put s [] v) = None
   \<and> M (snd (Put s [] v)) [] = Some v
   \<and> fst (Delete s []) = None
   \<and> M (snd (Delete s [])) [] = None
   \<and> events (WritePut l [] v) =
       events l @ [\<lparr>Sequence = 0, EventType = EventPut, Key = [], Value = v\<rparr>]
   \<and> events (WriteDelete l []) =
       events l @ [\<lparr>Sequence = 0, EventType = EventDelete, Key = [], Value = []\<rparr>]
   \<and> file (Run (WritePut (l\<lparr>events := []\<rparr>) [] v) [Written]) =
       file l @ record_text (unat (lastSequence l + 1))
                  \<lparr>Sequence = 0, EventType = EventPut, Key = [], Value = v\<rparr>
   \<and> file (Run (WriteDelete (l\<lparr>events := []\<rparr>) []) [Written]) =
       file l @ record_text (unat (lastSequence l + 1))
                  \<lparr>Sequence = 0, EventType = EventDelete, Key = [], Value = []\<rparr>"
  by (simp add: Put_def Delete_def WritePut_def WriteDelete_def Let_def)

end
